theory Spec2Isabelle
  imports Main
begin

section \<open>Strings of the runtime\<close>

text \<open>
  The program is TypeScript. A source string is modelled as a \<^typ>\<open>string\<close>, each
  \<^typ>\<open>char\<close> standing for one UTF-16 code unit below 256 (Latin-1 text). On that
  range the white space of \<^verbatim>\<open>String.prototype.trim\<close> and of the regular
  expression class \<^verbatim>\<open>\s\<close> is TAB, LF, VT, FF, CR, SPACE and NBSP; the line
  terminators, which the regular expression \<^verbatim>\<open>.\<close> does not match, are LF and CR.
\<close>

definition isWhiteSpace :: "char \<Rightarrow> bool" where
  "isWhiteSpace c =
     (c \<in> {CHR 0x09, CHR 0x0A, CHR 0x0B, CHR 0x0C, CHR 0x0D, CHR 0x20, CHR 0xA0})"

definition isLineTerminator :: "char \<Rightarrow> bool" where
  "isLineTerminator c = (c \<in> {CHR 0x0A, CHR 0x0D})"

definition isDigit :: "char \<Rightarrow> bool" where
  "isDigit c = (c \<in> set ''0123456789'')"

text \<open>\<^verbatim>\<open>s.trim()\<close>: white space removed at both ends.\<close>

definition trim :: "string \<Rightarrow> string" where
  "trim s = rev (dropWhile isWhiteSpace (rev (dropWhile isWhiteSpace s)))"

text \<open>
  \<^verbatim>\<open>s.toLowerCase()\<close> on code units below 256: A to Z and the Latin-1 capitals
  0xC0 to 0xDE (the multiplication sign 0xD7 apart) move up by 32, which sets the bit of
  weight 32, clear on these two ranges.
\<close>

definition toLowerChar :: "char \<Rightarrow> char" where
  "toLowerChar c =
     (let n = (of_char c :: nat)
      in if (65 \<le> n \<and> n \<le> 90) \<or> (192 \<le> n \<and> n \<le> 222 \<and> n \<noteq> 215)
         then (case c of Char b0 b1 b2 b3 b4 b5 b6 b7 \<Rightarrow> Char b0 b1 b2 b3 b4 True b6 b7)
         else c)"

definition toLowerCase :: "string \<Rightarrow> string" where
  "toLowerCase s = map toLowerChar s"

text \<open>\<^verbatim>\<open>content.split('\n')\<close>: the pieces between line feeds, at least one piece.\<close>

fun splitLines :: "string \<Rightarrow> string list" where
  "splitLines [] = [[]]"
| "splitLines (c # cs) =
     (if c = CHR 0x0A then [] # splitLines cs
      else (case splitLines cs of [] \<Rightarrow> [[c]] | l # ls \<Rightarrow> (c # l) # ls))"

text \<open>\<^verbatim>\<open>lines.join('\n')\<close>.\<close>

fun joinLines :: "string list \<Rightarrow> string" where
  "joinLines [] = []"
| "joinLines [l] = l"
| "joinLines (l # ls) = l @ CHR 0x0A # joinLines ls"

text \<open>
  The decimal rendering of a whole number, as a template literal renders it (the
  modification time is taken in whole milliseconds).
\<close>

definition digitChar :: "nat \<Rightarrow> char" where
  "digitChar d = ''0123456789'' ! d"

fun showNat :: "nat \<Rightarrow> string" where
  "showNat n = (if n < 10 then [digitChar n] else showNat (n div 10) @ [digitChar (n mod 10)])"

declare showNat.simps [simp del]

definition showInt :: "int \<Rightarrow> string" where
  "showInt i = (if i < 0 then CHR ''-'' # showNat (nat (- i)) else showNat (nat i))"

section \<open>Numbers of the runtime\<close>

text \<open>
  A number of the runtime is a double. The comparator and the cache only meet doubles
  with a whole value, the two infinities and NaN (which is also what \<^verbatim>\<open>undefined\<close>
  counts as in arithmetic): \<open>Finite i\<close> stands for the double of value \<open>i\<close>.
\<close>

datatype number = Finite int | PosInfinity | NegInfinity | NaN

text \<open>
  The double nearest to a whole number: up to 53 binary digits are kept, a tie goes to
  the even neighbour, and what reaches \<open>2^1024\<close> is infinite. \<open>roundShift\<close> drops the
  low binary digits one by one: \<open>guard\<close> is the last digit dropped, \<open>sticky\<close> tells
  whether a digit dropped before it was 1, and \<open>scale\<close> is the weight of the lowest
  digit kept.
\<close>

function roundShift :: "int \<Rightarrow> bool \<Rightarrow> bool \<Rightarrow> int \<Rightarrow> int" where
  "roundShift n guard sticky scale =
     (if n < 2 ^ 53
      then (if guard \<and> (sticky \<or> odd n) then n + 1 else n) * scale
      else roundShift (n div 2) (odd n) (sticky \<or> guard) (2 * scale))"
  by pat_completeness auto
termination
  by (relation "measure (\<lambda>(n, guard, sticky, scale). nat n)") auto

declare roundShift.simps [simp del]

definition roundToEven :: "int \<Rightarrow> int" where
  "roundToEven n = roundShift n False False 1"

definition toDouble :: "int \<Rightarrow> number" where
  "toDouble i =
     (let m = roundToEven (abs i)
      in if 2 ^ 1024 \<le> m then (if i < 0 then NegInfinity else PosInfinity)
         else Finite (if i < 0 then - m else m))"

text \<open>
  \<^verbatim>\<open>a - b\<close>, \<^verbatim>\<open>a < b\<close>, \<^verbatim>\<open>a <= b\<close> and \<^verbatim>\<open>a !== b\<close> on these numbers. The
  difference of two doubles is the double nearest to the exact difference; every
  comparison with NaN is false, and NaN differs from everything.
\<close>

fun numSub :: "number \<Rightarrow> number \<Rightarrow> number" where
  "numSub NaN b = NaN"
| "numSub a NaN = NaN"
| "numSub (Finite a) (Finite b) = toDouble (a - b)"
| "numSub (Finite a) PosInfinity = NegInfinity"
| "numSub (Finite a) NegInfinity = PosInfinity"
| "numSub PosInfinity PosInfinity = NaN"
| "numSub PosInfinity b = PosInfinity"
| "numSub NegInfinity NegInfinity = NaN"
| "numSub NegInfinity b = NegInfinity"

fun numLt :: "number \<Rightarrow> number \<Rightarrow> bool" where
  "numLt NaN b = False"
| "numLt a NaN = False"
| "numLt (Finite a) (Finite b) = (a < b)"
| "numLt a NegInfinity = False"
| "numLt NegInfinity b = True"
| "numLt PosInfinity b = False"
| "numLt a PosInfinity = True"

definition numLe :: "number \<Rightarrow> number \<Rightarrow> bool" where
  "numLe a b = (a \<noteq> NaN \<and> b \<noteq> NaN \<and> \<not> numLt b a)"

definition numNe :: "number \<Rightarrow> number \<Rightarrow> bool" where
  "numNe a b = (a = NaN \<or> b = NaN \<or> a \<noteq> b)"

text \<open>
  \<^verbatim>\<open>parseInt(digits, 10)\<close> on a run of decimal digits: the double nearest to the value
  the digits write. (Past the twentieth significant digit the language lets the runtime
  read a digit as 0, which moves the result by at most one double and leaves a run of
  310 digits or more infinite.)
\<close>

definition digitVal :: "char \<Rightarrow> int" where
  "digitVal c = int (of_char c) - 48"

definition decimalValue :: "string \<Rightarrow> int" where
  "decimalValue ds = foldl (\<lambda>a c. 10 * a + digitVal c) 0 ds"

definition parseInt :: "string \<Rightarrow> number" where
  "parseInt ds = toDouble (decimalValue ds)"

section \<open>VersionUtils\<close>

record ParsedVersion =
  major :: number
  minor :: number
  patch :: number

text \<open>
  \<^verbatim>\<open>/^(\d+)\.(\d+)\.(\d+)(?:-.*)?(?:\+.*)?$/\<close>. Each \<^verbatim>\<open>\d+\<close> takes the whole
  run of digits (what follows it is never a digit). After the patch number the rest of
  the string is empty, or starts with \<^verbatim>\<open>-\<close> or \<^verbatim>\<open>+\<close> and holds no line terminator
  (\<^verbatim>\<open>.\<close> stops at one and \<^verbatim>\<open>$\<close> is the end of the input).
\<close>

definition versionSuffixOk :: "string \<Rightarrow> bool" where
  "versionSuffixOk r =
     (case r of [] \<Rightarrow> True
      | c # x \<Rightarrow> (c = CHR ''-'' \<or> c = CHR ''+'') \<and> \<not> (\<exists>d \<in> set x. isLineTerminator d))"

definition digitsThenDot :: "string \<Rightarrow> (string \<times> string) option" where
  "digitsThenDot s =
     (let ds = takeWhile isDigit s; r = dropWhile isDigit s
      in case r of [] \<Rightarrow> None
         | c # r' \<Rightarrow> if ds \<noteq> [] \<and> c = CHR ''.'' then Some (ds, r') else None)"

definition parseVersion :: "string \<Rightarrow> ParsedVersion option" where
  "parseVersion ver =
     (case digitsThenDot ver of None \<Rightarrow> None
      | Some (d1, r1) \<Rightarrow>
     (case digitsThenDot r1 of None \<Rightarrow> None
      | Some (d2, r2) \<Rightarrow>
     (let d3 = takeWhile isDigit r2; r3 = dropWhile isDigit r2
      in if d3 \<noteq> [] \<and> versionSuffixOk r3
         then Some \<lparr>major = parseInt d1, minor = parseInt d2, patch = parseInt d3\<rparr>
         else None)))"

text \<open>
  \<^verbatim>\<open>version1.localeCompare(version2)\<close> is the collation of the runtime, which is not
  code of this repository: \<open>compareVersions\<close> takes it as the parameter \<open>lc\<close>.
\<close>

definition compareVersions :: "(string \<Rightarrow> string \<Rightarrow> int) \<Rightarrow> string \<Rightarrow> string \<Rightarrow> number" where
  "compareVersions lc version1 version2 =
     (case (parseVersion version1, parseVersion version2) of
        (Some v1, Some v2) \<Rightarrow>
          if numNe (major v1) (major v2) then numSub (major v1) (major v2)
          else if numNe (minor v1) (minor v2) then numSub (minor v1) (minor v2)
          else numSub (patch v1) (patch v2)
      | _ \<Rightarrow> Finite (lc version1 version2))"

definition isVersionNewer :: "(string \<Rightarrow> string \<Rightarrow> int) \<Rightarrow> string \<Rightarrow> string \<Rightarrow> bool" where
  "isVersionNewer lc ver baseVersion = numLt (Finite 0) (compareVersions lc ver baseVersion)"

text \<open>
  \<open>isVersionInRange\<close> also computes \<open>compareToStart\<close> and \<open>compareToEnd\<close>, which
  it never reads; they are left out.
\<close>

definition isVersionInRange ::
  "(string \<Rightarrow> string \<Rightarrow> int) \<Rightarrow> string \<Rightarrow> string \<Rightarrow> string \<Rightarrow> bool" where
  "isVersionInRange lc ver startVersion endVersion =
     (let minVersion = (if numLe (compareVersions lc startVersion endVersion) (Finite 0)
                        then startVersion else endVersion);
          maxVersion = (if numLe (compareVersions lc startVersion endVersion) (Finite 0)
                        then endVersion else startVersion);
          compareToMin = compareVersions lc ver minVersion;
          compareToMax = compareVersions lc ver maxVersion
      in numLe (Finite 0) compareToMin \<and> numLe compareToMax (Finite 0))"

text \<open>
  A concrete collation for evaluating the definitions: the strings compared code unit by
  code unit, a proper prefix first, with result \<open>-1\<close>, \<open>0\<close> or \<open>1\<close>.
\<close>

fun codeUnitCompare :: "string \<Rightarrow> string \<Rightarrow> int" where
  "codeUnitCompare [] [] = 0"
| "codeUnitCompare [] (d # ds) = -1"
| "codeUnitCompare (c # cs) [] = 1"
| "codeUnitCompare (c # cs) (d # ds) =
     (if (of_char c :: nat) < of_char d then -1
      else if (of_char d :: nat) < of_char c then 1
      else codeUnitCompare cs ds)"

section \<open>The data model (types.ts)\<close>

datatype category = Added | Changed | Deprecated | Removed | Fixed | Security

record ChangelogEntry =
  description :: string

text \<open>\<open>VersionChanges\<close>: an object with one optional array per category.\<close>

type_synonym VersionChanges = "category \<rightharpoonup> ChangelogEntry list"

record Version =
  version :: string
  date :: "string option"
  changes :: VersionChanges

record Repository =
  name :: string
  path :: string
  versions :: "Version list"
  unreleased :: "VersionChanges option"

record ChangelogEntryWithVersion =
  descriptionW :: string
  versionW :: string
  dateW :: "string option"

type_synonym VersionChangesWithVersion = "category \<rightharpoonup> ChangelogEntryWithVersion list"

record MarkdownDiff =
  content :: string
  title :: string
  fromVersion :: "string option"
  toVersion :: "string option"

section \<open>ChangelogParser\<close>

text \<open>
  The tail \<^verbatim>\<open>\s*(.+)\<close> (\<open>k = 0\<close>) or \<^verbatim>\<open>\s+(.+)\<close> (\<open>k = 1\<close>) of the three line
  patterns, matched at the start of \<open>s\<close>, with the group it captures. The white space
  is greedy and gives back one code unit at a time until \<^verbatim>\<open>.+\<close> finds a code unit
  that is not a line terminator; \<^verbatim>\<open>.+\<close> then runs to the next line terminator.
\<close>

definition wsThenRest :: "nat \<Rightarrow> string \<Rightarrow> string option" where
  "wsThenRest k s =
     (let n = length (takeWhile isWhiteSpace s)
      in case find (\<lambda>i. i < length s \<and> \<not> isLineTerminator (s ! i)) (rev [k..<Suc n]) of
           None \<Rightarrow> None
         | Some i \<Rightarrow> Some (takeWhile (\<lambda>c. \<not> isLineTerminator c) (drop i s)))"

text \<open>
  \<^verbatim>\<open>/^##\s*\[([^\]]+)\](?:\s*-\s*(.+))?/\<close>: the label is the non-empty run up to the
  first \<^verbatim>\<open>]\<close>; the second group is there when a \<^verbatim>\<open>-\<close> and a date follow.
\<close>

definition matchVersionDate :: "string \<Rightarrow> string option" where
  "matchVersionDate r =
     (case dropWhile isWhiteSpace r of
        [] \<Rightarrow> None
      | d # r' \<Rightarrow> if d = CHR ''-'' then wsThenRest 0 r' else None)"

definition matchVersionHeader :: "string \<Rightarrow> (string \<times> string option) option" where
  "matchVersionHeader t =
     (case t of
        c1 # c2 # r \<Rightarrow>
          if c1 = CHR ''#'' \<and> c2 = CHR ''#'' then
            (case dropWhile isWhiteSpace r of
               [] \<Rightarrow> None
             | b # r2 \<Rightarrow>
                 if b = CHR ''['' then
                   (let lab = takeWhile (\<lambda>c. c \<noteq> CHR '']'') r2;
                        r3 = dropWhile (\<lambda>c. c \<noteq> CHR '']'') r2
                    in case r3 of
                         [] \<Rightarrow> None
                       | e # r4 \<Rightarrow> if lab = [] then None else Some (lab, matchVersionDate r4))
                 else None)
          else None
      | _ \<Rightarrow> None)"

text \<open>\<^verbatim>\<open>/^###\s+(.+)/\<close> and \<^verbatim>\<open>/^[-*]\s+(.+)/\<close>.\<close>

definition matchSectionHeader :: "string \<Rightarrow> string option" where
  "matchSectionHeader t = (if take 3 t = ''###'' then wsThenRest 1 (drop 3 t) else None)"

definition matchListItem :: "string \<Rightarrow> string option" where
  "matchListItem t =
     (case t of [] \<Rightarrow> None
      | c # r \<Rightarrow> if c = CHR ''-'' \<or> c = CHR ''*'' then wsThenRest 1 r else None)"

text \<open>\<open>validSections.includes(sectionName)\<close>, with the key it names.\<close>

definition validSection :: "string \<Rightarrow> category option" where
  "validSection sectionName =
     (if sectionName = ''added'' then Some Added
      else if sectionName = ''changed'' then Some Changed
      else if sectionName = ''deprecated'' then Some Deprecated
      else if sectionName = ''removed'' then Some Removed
      else if sectionName = ''fixed'' then Some Fixed
      else if sectionName = ''security'' then Some Security
      else None)"

text \<open>The variables of the loop of \<open>parseContent\<close>.\<close>

record ParserState =
  repository :: Repository
  currentVersion :: "Version option"
  currentSection :: "category option"
  isUnreleased :: bool

text \<open>
  "Save previous version if exists": the open block goes to \<open>versions\<close>, or to
  \<open>unreleased\<close> when its label is the unreleased one.
\<close>

definition saveVersion :: "ParserState \<Rightarrow> Repository" where
  "saveVersion st =
     (case currentVersion st of
        None \<Rightarrow> repository st
      | Some cv \<Rightarrow>
          if \<not> isUnreleased st
          then (repository st)\<lparr>versions := versions (repository st) @ [cv]\<rparr>
          else (repository st)\<lparr>unreleased := Some (changes cv)\<rparr>)"

text \<open>One turn of the loop \<^verbatim>\<open>for (const line of lines)\<close>.\<close>

definition parseLine :: "ParserState \<Rightarrow> string \<Rightarrow> ParserState" where
  "parseLine st line =
     (let trimmedLine = trim line
      in if trimmedLine = [] then st
         else case matchVersionHeader trimmedLine of
           Some (g1, g2) \<Rightarrow>
             (let versionName = trim g1;
                  dateStr = map_option trim g2
              in \<lparr>repository = saveVersion st,
                  currentVersion = Some
                    \<lparr>version = versionName,
                     date = (case dateStr of None \<Rightarrow> None
                             | Some d \<Rightarrow> if d \<noteq> [] then Some d else None),
                     changes = Map.empty\<rparr>,
                  currentSection = None,
                  isUnreleased = (toLowerCase versionName = ''unreleased'')\<rparr>)
         | None \<Rightarrow>
             (case (matchSectionHeader trimmedLine, currentVersion st) of
                (Some g, Some cv) \<Rightarrow>
                  (case validSection (toLowerCase (trim g)) of
                     Some sect \<Rightarrow>
                       st\<lparr>currentSection := Some sect,
                          currentVersion := Some
                            (if changes cv sect = None
                             then cv\<lparr>changes := (changes cv)(sect \<mapsto> [])\<rparr> else cv)\<rparr>
                   | None \<Rightarrow> st)
              | _ \<Rightarrow>
                  (case (matchListItem trimmedLine, currentVersion st, currentSection st) of
                     (Some g, Some cv, Some sect) \<Rightarrow>
                       (let entry = \<lparr>description = trim g\<rparr>;
                            old = (case changes cv sect of None \<Rightarrow> [] | Some es \<Rightarrow> es)
                        in st\<lparr>currentVersion := Some
                                (cv\<lparr>changes := (changes cv)(sect \<mapsto> old @ [entry])\<rparr>)\<rparr>)
                   | _ \<Rightarrow> st)))"

definition initialState :: "string \<Rightarrow> string \<Rightarrow> ParserState" where
  "initialState repoName repoPath =
     \<lparr>repository = \<lparr>name = repoName, path = repoPath, versions = [], unreleased = None\<rparr>,
      currentVersion = None, currentSection = None, isUnreleased = False\<rparr>"

text \<open>The loop over the lines, then "Add the last version".\<close>

definition parseLines :: "string \<Rightarrow> string \<Rightarrow> string list \<Rightarrow> Repository" where
  "parseLines repoName repoPath ls =
     saveVersion (foldl parseLine (initialState repoName repoPath) ls)"

definition parseContent :: "string \<Rightarrow> string \<Rightarrow> string \<Rightarrow> Repository" where
  "parseContent repoName repoPath text = parseLines repoName repoPath (splitLines text)"

section \<open>TitleUtils and DateUtils\<close>

text \<open>
  \<^verbatim>\<open>.replace(/\s+/g, ' ')\<close>: each run of white space becomes one space (written at
  the last code unit of the run).
\<close>

fun normalizeWhitespace :: "string \<Rightarrow> string" where
  "normalizeWhitespace [] = []"
| "normalizeWhitespace [c] = (if isWhiteSpace c then [CHR '' ''] else [c])"
| "normalizeWhitespace (c # d # cs) =
     (if isWhiteSpace c
      then (if isWhiteSpace d then normalizeWhitespace (d # cs)
            else CHR '' '' # normalizeWhitespace (d # cs))
      else c # normalizeWhitespace (d # cs))"

definition sanitizeTitle :: "string \<Rightarrow> string" where
  "sanitizeTitle t =
     (if t = [] then []
      else
        (let sanitized =
               trim (normalizeWhitespace
                 (filter (\<lambda>c. c \<notin> set ''<>'')
                   (filter (\<lambda>c. c \<notin> set ''#*_`~[](){}'') t)))
         in if length sanitized > 128 then trim (take 128 sanitized) else sanitized))"

text \<open>
  \<^verbatim>\<open>new Date(dateString)\<close> and its getters belong to the runtime: the parameter
  \<open>dateFields\<close> gives \<^verbatim>\<open>getMonth()\<close>, \<^verbatim>\<open>getDate()\<close> and \<^verbatim>\<open>getFullYear()\<close> of a
  string that is a valid date, and nothing for one that is not.
\<close>

type_synonym dateParser = "string \<Rightarrow> (nat \<times> int \<times> int) option"

definition monthNames :: "string list" where
  "monthNames = [''Jan'', ''Feb'', ''Mar'', ''Apr'', ''May'', ''Jun'',
                 ''Jul'', ''Aug'', ''Sep'', ''Oct'', ''Nov'', ''Dec'']"

definition formatShortDate :: "dateParser \<Rightarrow> string option \<Rightarrow> string" where
  "formatShortDate dateFields dateString =
     (case dateString of
        None \<Rightarrow> []
      | Some s \<Rightarrow>
          if s = [] then []
          else (case dateFields s of
                  None \<Rightarrow> []
                | Some (m, d, y) \<Rightarrow>
                    (if m < length monthNames then monthNames ! m else ''undefined'')
                    @ '' '' @ showInt d @ '', '' @ showInt y))"

section \<open>The cache (cache.ts)\<close>

datatype error = StatError | StorageError | SyntaxError

text \<open>
  The \<open>data\<close> column holds the text \<^verbatim>\<open>JSON.stringify\<close> made of a payload, which
  \<^verbatim>\<open>JSON.parse\<close> reads back as the same payload (strings and optional strings only),
  or a text that \<^verbatim>\<open>JSON.parse\<close> rejects.
\<close>

datatype json = Json VersionChangesWithVersion | Malformed

definition JSON_stringify :: "VersionChangesWithVersion \<Rightarrow> json" where
  "JSON_stringify d = Json d"

definition JSON_parse :: "json \<Rightarrow> error + VersionChangesWithVersion" where
  "JSON_parse j = (case j of Json d \<Rightarrow> Inr d | Malformed \<Rightarrow> Inl SyntaxError)"

text \<open>
  A row of \<open>cache_entries\<close> as \<^verbatim>\<open>SELECT *\<close> returns it: an object with one property
  per column. \<open>get\<close> casts it to the interface \<open>CacheEntry\<close>, whose fields
  \<open>fileMtime\<close> and \<open>createdAt\<close> are written in camel case; the row has no property of
  these names, so \<^verbatim>\<open>entry.createdAt\<close> is \<^verbatim>\<open>undefined\<close>, which counts as NaN in the
  subtraction that reads it.
\<close>

record CacheEntry =
  key :: string
  repo :: string
  file_mtime :: nat
  data :: json
  created_at :: int

definition createdAt :: "CacheEntry \<Rightarrow> number" where
  "createdAt entry = NaN"

text \<open>
  The SQLite table \<open>cache_entries\<close>, with \<open>key\<close> as primary key, and the statements
  that throw when they are run (a corrupted file, a full disk, a closed handle).
\<close>

datatype statement = Select | Upsert | Delete

record Database =
  rows :: "string \<rightharpoonup> CacheEntry"
  failing :: "statement \<Rightarrow> bool"

record CacheManager =
  enabled :: bool
  db :: "Database option"
  ttlMs :: int

text \<open>
  What a call reads from outside: \<^verbatim>\<open>statSync(join(repoPath, 'CHANGELOG.md')).mtimeMs\<close>,
  in whole milliseconds, or the failure of \<^verbatim>\<open>statSync\<close>; and \<^verbatim>\<open>Date.now()\<close>.
\<close>

record World =
  statMtime :: "string \<Rightarrow> error + nat"
  now :: int

definition generateCacheKey :: "string \<Rightarrow> nat \<Rightarrow> string \<Rightarrow> string \<Rightarrow> string" where
  "generateCacheKey repoName mtime operation params =
     repoName @ ''_'' @ showNat mtime @ ''_'' @ operation @ ''_'' @ params"

definition getFileMtime :: "World \<Rightarrow> string \<Rightarrow> nat option" where
  "getFileMtime w repoPath =
     (case statMtime w repoPath of Inl e \<Rightarrow> None | Inr m \<Rightarrow> Some m)"

definition dbSelect :: "Database \<Rightarrow> string \<Rightarrow> error + CacheEntry option" where
  "dbSelect d k = (if failing d Select then Inl StorageError else Inr (rows d k))"

definition dbUpsert :: "Database \<Rightarrow> CacheEntry \<Rightarrow> error + Database" where
  "dbUpsert d e =
     (if failing d Upsert then Inl StorageError else Inr (d\<lparr>rows := (rows d)(key e \<mapsto> e)\<rparr>))"

definition dbDelete :: "Database \<Rightarrow> string \<Rightarrow> error + Database" where
  "dbDelete d k =
     (if failing d Delete then Inl StorageError else Inr (d\<lparr>rows := (rows d)(k := None)\<rparr>))"

text \<open>\<open>delete\<close>: its own \<^verbatim>\<open>try\<close> keeps a failing statement inside.\<close>

definition delete :: "CacheManager \<Rightarrow> string \<Rightarrow> CacheManager" where
  "delete cm k =
     (case db cm of
        None \<Rightarrow> cm
      | Some d \<Rightarrow> (case dbDelete d k of Inl e \<Rightarrow> cm | Inr d' \<Rightarrow> cm\<lparr>db := Some d'\<rparr>))"

text \<open>
  \<open>get\<close> and \<open>set\<close> return a promise: \<open>Inl\<close> is a rejected one. \<open>getBody\<close> and
  \<open>setBody\<close> are the blocks under \<^verbatim>\<open>try\<close>; the \<^verbatim>\<open>catch\<close> of \<open>get\<close> answers
  \<^verbatim>\<open>null\<close>, the one of \<open>set\<close> only warns.
\<close>

definition getBody ::
  "CacheManager \<Rightarrow> Database \<Rightarrow> World \<Rightarrow> string \<Rightarrow> string \<Rightarrow> string \<Rightarrow> string \<Rightarrow>
   (error + VersionChangesWithVersion option) \<times> CacheManager" where
  "getBody cm d w repoName repoPath operation params =
     (case getFileMtime w repoPath of
        None \<Rightarrow> (Inr None, cm)
      | Some mtime \<Rightarrow>
          (let k = generateCacheKey repoName mtime operation params
           in case dbSelect d k of
                Inl e \<Rightarrow> (Inl e, cm)
              | Inr None \<Rightarrow> (Inr None, cm)
              | Inr (Some entry) \<Rightarrow>
                  if numLt (Finite (ttlMs cm)) (numSub (Finite (now w)) (createdAt entry))
                  then (Inr None, delete cm k)
                  else (case JSON_parse (data entry) of
                          Inl e \<Rightarrow> (Inl e, cm)
                        | Inr payload \<Rightarrow> (Inr (Some payload), cm))))"

definition get ::
  "CacheManager \<Rightarrow> World \<Rightarrow> string \<Rightarrow> string \<Rightarrow> string \<Rightarrow> string \<Rightarrow>
   (error + VersionChangesWithVersion option) \<times> CacheManager" where
  "get cm w repoName repoPath operation params =
     (case db cm of
        None \<Rightarrow> (Inr None, cm)
      | Some d \<Rightarrow>
          if \<not> enabled cm then (Inr None, cm)
          else (case getBody cm d w repoName repoPath operation params of
                  (Inl e, cm') \<Rightarrow> (Inr None, cm')
                | (Inr r, cm') \<Rightarrow> (Inr r, cm')))"

definition setBody ::
  "CacheManager \<Rightarrow> Database \<Rightarrow> World \<Rightarrow> string \<Rightarrow> string \<Rightarrow> string \<Rightarrow> string \<Rightarrow>
   VersionChangesWithVersion \<Rightarrow> (error + unit) \<times> CacheManager" where
  "setBody cm d w repoName repoPath operation params payload =
     (case getFileMtime w repoPath of
        None \<Rightarrow> (Inr (), cm)
      | Some mtime \<Rightarrow>
          (let k = generateCacheKey repoName mtime operation params;
               serializedData = JSON_stringify payload;
               created = now w
           in case dbUpsert d \<lparr>key = k, repo = repoName, file_mtime = mtime,
                                 data = serializedData, created_at = created\<rparr> of
                Inl e \<Rightarrow> (Inl e, cm)
              | Inr d' \<Rightarrow> (Inr (), cm\<lparr>db := Some d'\<rparr>)))"

definition set_cache ::
  "CacheManager \<Rightarrow> World \<Rightarrow> string \<Rightarrow> string \<Rightarrow> string \<Rightarrow> string \<Rightarrow>
   VersionChangesWithVersion \<Rightarrow> (error + unit) \<times> CacheManager" where
  "set_cache cm w repoName repoPath operation params payload =
     (case db cm of
        None \<Rightarrow> (Inr (), cm)
      | Some d \<Rightarrow>
          if \<not> enabled cm then (Inr (), cm)
          else (case setBody cm d w repoName repoPath operation params payload of
                  (Inl e, cm') \<Rightarrow> (Inr (), cm')
                | (Inr u, cm') \<Rightarrow> (Inr u, cm')))"

section \<open>ChangelogDiffUtils\<close>

text \<open>
  \<open>sinceVersion\<close> is \<^verbatim>\<open>string | null\<close>; \<^verbatim>\<open>!sinceVersion\<close> holds of \<^verbatim>\<open>null\<close> and of
  the empty string.
\<close>

definition filterVersionsSince ::
  "(string \<Rightarrow> string \<Rightarrow> int) \<Rightarrow> Repository \<Rightarrow> string option \<Rightarrow> Version list" where
  "filterVersionsSince lc rp sinceVersion =
     (case sinceVersion of
        None \<Rightarrow> versions rp
      | Some s \<Rightarrow>
          if s = [] \<or> trim s = [] then versions rp
          else filter (\<lambda>v. isVersionNewer lc (version v) s) (versions rp))"

definition filterVersionsBetween ::
  "(string \<Rightarrow> string \<Rightarrow> int) \<Rightarrow> Repository \<Rightarrow> string \<Rightarrow> string \<Rightarrow> Version list" where
  "filterVersionsBetween lc rp version1 version2 =
     filter (\<lambda>v. isVersionInRange lc (version v) version1 version2) (versions rp)"

definition sections :: "category list" where
  "sections = [Added, Changed, Deprecated, Removed, Fixed, Security]"

text \<open>The inner loops of \<open>combineChangesWithVersions\<close>: the entries of one section.\<close>

definition sectionEntries :: "category \<Rightarrow> Version list \<Rightarrow> ChangelogEntryWithVersion list" where
  "sectionEntries sect vs =
     concat (map (\<lambda>v. case changes v sect of
                         None \<Rightarrow> []
                       | Some sectionChanges \<Rightarrow>
                           map (\<lambda>entry. \<lparr>descriptionW = description entry,
                                         versionW = version v, dateW = date v\<rparr>)
                               sectionChanges) vs)"

definition combineChangesWithVersions :: "Version list \<Rightarrow> VersionChangesWithVersion" where
  "combineChangesWithVersions vs =
     foldl (\<lambda>combined sect.
              let entries = sectionEntries sect vs
              in if length entries > 0 then combined(sect \<mapsto> entries) else combined)
           Map.empty sections"

definition sectionTitle :: "category \<Rightarrow> string" where
  "sectionTitle sect =
     (case sect of Added \<Rightarrow> ''Added'' | Changed \<Rightarrow> ''Changed'' | Deprecated \<Rightarrow> ''Deprecated''
      | Removed \<Rightarrow> ''Removed'' | Fixed \<Rightarrow> ''Fixed'' | Security \<Rightarrow> ''Security'')"

definition entryLine :: "dateParser \<Rightarrow> bool \<Rightarrow> ChangelogEntryWithVersion \<Rightarrow> string" where
  "entryLine dateFields withDates entry =
     ''- ['' @ versionW entry @ '']''
     @ (if withDates \<and> dateW entry \<noteq> None \<and> dateW entry \<noteq> Some []
        then (let formattedDate = formatShortDate dateFields (dateW entry)
              in if formattedDate \<noteq> [] then '' ('' @ formattedDate @ '')'' else [])
        else [])
     @ '' '' @ descriptionW entry"

text \<open>The loop over the sections carries \<open>lines\<close> and \<open>hasContent\<close>.\<close>

definition formatSection ::
  "dateParser \<Rightarrow> bool \<Rightarrow> VersionChangesWithVersion \<Rightarrow> string list \<times> bool \<Rightarrow> category \<Rightarrow>
   string list \<times> bool" where
  "formatSection dateFields withDates chs acc sect =
     (case chs sect of
        None \<Rightarrow> acc
      | Some sectionChanges \<Rightarrow>
          if length sectionChanges > 0
          then (fst acc @ [''## '' @ sectionTitle sect, []]
                  @ map (entryLine dateFields withDates) sectionChanges @ [[]], True)
          else acc)"

definition formatMarkdownDiff ::
  "dateParser \<Rightarrow> string \<Rightarrow> VersionChangesWithVersion \<Rightarrow> string \<Rightarrow> bool \<Rightarrow> MarkdownDiff" where
  "formatMarkdownDiff dateFields repoName chs ttl withDates =
     (let (lines, hasContent) =
            foldl (formatSection dateFields withDates chs) ([''# '' @ ttl, []], False) sections;
          lines' = (if \<not> hasContent
                    then lines @ [''No changes found in the specified version range.'', []]
                    else lines)
      in \<lparr>content = joinLines lines', title = ttl, fromVersion = None, toVersion = None\<rparr>)"

text \<open>
  The two entry points thread the cache manager through their calls; a rejected
  \<open>get\<close> or \<open>set\<close> would reject them. The world is taken not to change during one call.
\<close>

definition cachedChanges ::
  "CacheManager \<Rightarrow> World \<Rightarrow> Repository \<Rightarrow> string \<Rightarrow> string \<Rightarrow> Version list \<Rightarrow>
   (error + VersionChangesWithVersion) \<times> CacheManager" where
  "cachedChanges cm w rp operation cacheKey filteredVersions =
     (case get cm w (name rp) (path rp) operation cacheKey of
        (Inl e, cm1) \<Rightarrow> (Inl e, cm1)
      | (Inr (Some combinedChanges), cm1) \<Rightarrow> (Inr combinedChanges, cm1)
      | (Inr None, cm1) \<Rightarrow>
          (let combinedChanges = combineChangesWithVersions filteredVersions
           in case set_cache cm1 w (name rp) (path rp) operation cacheKey
                     combinedChanges of
                (Inl e, cm2) \<Rightarrow> (Inl e, cm2)
              | (Inr u, cm2) \<Rightarrow> (Inr combinedChanges, cm2)))"

definition createSinceDiff ::
  "(string \<Rightarrow> string \<Rightarrow> int) \<Rightarrow> dateParser \<Rightarrow> CacheManager \<Rightarrow> World \<Rightarrow> Repository \<Rightarrow>
   string option \<Rightarrow> string option \<Rightarrow> bool \<Rightarrow> (error + MarkdownDiff) \<times> CacheManager" where
  "createSinceDiff lc dateFields cm w rp sinceVersion customTitle withDates =
     (let cacheKey = (case sinceVersion of None \<Rightarrow> ''complete''
                      | Some s \<Rightarrow> if s = [] then ''complete'' else s);
          operation = ''since''
      in case cachedChanges cm w rp operation cacheKey
                (filterVersionsSince lc rp sinceVersion) of
           (Inl e, cm') \<Rightarrow> (Inl e, cm')
         | (Inr combinedChanges, cm') \<Rightarrow>
             (let title0 = ''New updates!'';
                  title1 = (case customTitle of
                              None \<Rightarrow> title0
                            | Some ct \<Rightarrow>
                                if ct = [] then title0
                                else (let sanitizedTitle = sanitizeTitle ct
                                      in if sanitizedTitle \<noteq> [] then sanitizedTitle else title0));
                  title2 = (if (case sinceVersion of None \<Rightarrow> True
                                | Some s \<Rightarrow> s = [] \<or> trim s = [])
                            then (if customTitle = None \<or> customTitle = Some []
                                  then ''Complete Changelog'' else title1)
                            else title1)
              in (Inr (formatMarkdownDiff dateFields (name rp) combinedChanges
                         title2 withDates), cm')))"

definition createRangeDiff ::
  "(string \<Rightarrow> string \<Rightarrow> int) \<Rightarrow> dateParser \<Rightarrow> CacheManager \<Rightarrow> World \<Rightarrow> Repository \<Rightarrow>
   string \<Rightarrow> string \<Rightarrow> bool \<Rightarrow> (error + MarkdownDiff) \<times> CacheManager" where
  "createRangeDiff lc dateFields cm w rp version1 version2 withDates =
     (let minVersion = (if numLe (compareVersions lc version1 version2) (Finite 0)
                        then version1 else version2);
          maxVersion = (if numLe (compareVersions lc version1 version2) (Finite 0)
                        then version2 else version1);
          cacheKey = minVersion @ ''_'' @ maxVersion;
          operation = ''diff''
      in case cachedChanges cm w rp operation cacheKey
                (filterVersionsBetween lc rp version1 version2) of
           (Inl e, cm') \<Rightarrow> (Inl e, cm')
         | (Inr combinedChanges, cm') \<Rightarrow>
             (let ttl = ''Changelog Diff: '' @ name rp
                          @ '' ('' @ minVersion @ '' to '' @ maxVersion @ '')''
              in (Inr ((formatMarkdownDiff dateFields (name rp) combinedChanges
                          ttl withDates)
                       \<lparr>fromVersion := Some minVersion, toVersion := Some maxVersion\<rparr>), cm')))"

section \<open>Auxiliary notions for the parser proofs\<close>

text \<open>
  Two states of the loop that hold the same open block, the repository of the first
  being the one of the second with \<open>R\<close> in front; and the invariant that ties
  \<open>isUnreleased\<close> to the label of the open block.
\<close>

definition sameBlock :: "Repository \<Rightarrow> ParserState \<Rightarrow> ParserState \<Rightarrow> bool" where
  "sameBlock R s s' \<longleftrightarrow>
     currentVersion s = currentVersion s' \<and> currentSection s = currentSection s'
     \<and> isUnreleased s = isUnreleased s'
     \<and> versions (repository s) = versions R @ versions (repository s')
     \<and> unreleased (repository s) =
         (case unreleased (repository s') of None \<Rightarrow> unreleased R | Some u \<Rightarrow> Some u)"

definition labelsConsistent :: "ParserState \<Rightarrow> bool" where
  "labelsConsistent st \<longleftrightarrow>
     (\<forall>v \<in> set (versions (repository st)). toLowerCase (version v) \<noteq> ''unreleased'')
     \<and> (\<forall>cv. currentVersion st = Some cv \<longrightarrow>
           isUnreleased st = (toLowerCase (version cv) = ''unreleased''))"

section \<open>Properties of the version comparator\<close>

lemma trim_Nil_iff: "trim s = [] \<longleftrightarrow> (\<forall>c \<in> set s. isWhiteSpace c)"
proof -
  have "trim s = [] \<longleftrightarrow> (\<forall>c \<in> set (dropWhile isWhiteSpace s). isWhiteSpace c)"
    by (simp add: trim_def dropWhile_eq_Nil_conv)
  also have "\<dots> \<longleftrightarrow> (\<forall>c \<in> set s. isWhiteSpace c)"
  proof
    assume a: "\<forall>c \<in> set (dropWhile isWhiteSpace s). isWhiteSpace c"
    show "\<forall>c \<in> set s. isWhiteSpace c"
    proof
      fix c assume "c \<in> set s"
      then have "c \<in> set (takeWhile isWhiteSpace s @ dropWhile isWhiteSpace s)" by simp
      then have "c \<in> set (takeWhile isWhiteSpace s) \<or> c \<in> set (dropWhile isWhiteSpace s)"
        by (simp only: set_append Un_iff)
      then show "isWhiteSpace c" using a by (auto dest: set_takeWhileD)
    qed
  next
    assume "\<forall>c \<in> set s. isWhiteSpace c"
    then show "\<forall>c \<in> set (dropWhile isWhiteSpace s). isWhiteSpace c"
      by (auto dest: set_dropWhileD)
  qed
  finally show ?thesis .
qed

lemma roundShift_pos: "0 < n \<Longrightarrow> 0 < scale \<Longrightarrow> 0 < roundShift n guard sticky scale"
proof (induction n guard sticky scale rule: roundShift.induct)
  case (1 n guard sticky scale)
  show ?case
  proof (cases "n < 2 ^ 53")
    case True
    with "1.prems" show ?thesis
      by (subst roundShift.simps) (simp add: zero_less_mult_iff)
  next
    case False
    then have "0 < n div 2" by simp
    with False "1.IH" "1.prems" show ?thesis
      by (subst roundShift.simps) simp
  qed
qed

lemma roundToEven_pos: "0 < n \<Longrightarrow> 0 < roundToEven n"
  by (simp add: roundToEven_def roundShift_pos)

lemma roundToEven_zero: "roundToEven 0 = 0"
  by (simp add: roundToEven_def roundShift.simps)

lemma toDouble_not_NaN: "toDouble i \<noteq> NaN"
  by (simp add: toDouble_def Let_def)

lemma toDouble_cases:
  assumes "i \<noteq> 0"
  obtains m where "0 < m"
    and "toDouble i = (if i < 0 then NegInfinity else PosInfinity)
         \<or> toDouble i = Finite (if i < 0 then - m else m)"
proof -
  from assms have "0 < roundToEven (abs i)" by (intro roundToEven_pos) simp
  moreover have "toDouble i = (if i < 0 then NegInfinity else PosInfinity)
         \<or> toDouble i = Finite (if i < 0 then - roundToEven (abs i) else roundToEven (abs i))"
    unfolding toDouble_def Let_def by (simp only: split: if_splits) blast
  ultimately show thesis using that by blast
qed

lemma toDouble_neg: "numLt (toDouble i) (Finite 0) \<longleftrightarrow> i < 0"
proof (cases "i = 0")
  case True
  then show ?thesis by (simp add: toDouble_def roundToEven_zero)
next
  case False
  then obtain m where "0 < m"
    and "toDouble i = (if i < 0 then NegInfinity else PosInfinity)
         \<or> toDouble i = Finite (if i < 0 then - m else m)" by (rule toDouble_cases)
  then show ?thesis by (auto split: if_splits)
qed

lemma toDouble_pos: "numLt (Finite 0) (toDouble i) \<longleftrightarrow> 0 < i"
proof (cases "i = 0")
  case True
  then show ?thesis by (simp add: toDouble_def roundToEven_zero)
next
  case False
  then obtain m where "0 < m"
    and "toDouble i = (if i < 0 then NegInfinity else PosInfinity)
         \<or> toDouble i = Finite (if i < 0 then - m else m)" by (rule toDouble_cases)
  with False show ?thesis by (auto split: if_splits)
qed

lemma numSub_antisym:
  "numLt (numSub a b) (Finite 0) \<longleftrightarrow> numLt (Finite 0) (numSub b a)"
  by (cases a; cases b) (auto simp: toDouble_neg toDouble_pos)

lemma numSub_tie:
  assumes "a \<noteq> NaN" and "b \<noteq> NaN"
    and "\<not> numLt (numSub a b) (Finite 0)" and "\<not> numLt (Finite 0) (numSub a b)"
  shows "a = b"
  using assms by (cases a; cases b) (auto simp: toDouble_neg toDouble_pos)

lemma parseInt_not_NaN: "parseInt ds \<noteq> NaN"
  by (simp add: parseInt_def toDouble_not_NaN)

lemma parseVersion_not_NaN:
  assumes "parseVersion a = Some x"
  shows "major x \<noteq> NaN" and "minor x \<noteq> NaN" and "patch x \<noteq> NaN"
  using assms
  by (auto simp: parseVersion_def Let_def parseInt_not_NaN split: option.splits if_splits)

lemma compareVersions_parsed:
  "parseVersion a = Some x \<Longrightarrow> parseVersion b = Some y \<Longrightarrow>
   compareVersions lc a b =
     (if major x \<noteq> major y then numSub (major x) (major y)
      else if minor x \<noteq> minor y then numSub (minor x) (minor y)
      else numSub (patch x) (patch y))"
  by (simp add: compareVersions_def numNe_def parseVersion_not_NaN)

text \<open>
  A run of 310 digits or more that does not start with \<open>0\<close> writes a number beyond
  \<open>2^1024\<close> and is read as Infinity; two labels with the same major and minor numbers
  and such patch numbers compare as NaN, the difference of two infinities.
\<close>

lemma roundShift_lower:
  "2 ^ k \<le> n \<Longrightarrow> 0 < scale \<Longrightarrow> 2 ^ k * scale \<le> roundShift n guard sticky scale"
proof (induction n guard sticky scale arbitrary: k rule: roundShift.induct)
  case (1 n guard sticky scale)
  show ?case
  proof (cases "n < 2 ^ 53")
    case True
    have "2 ^ k * scale \<le> n * scale" using "1.prems" by simp
    also have "\<dots> \<le> (if guard \<and> (sticky \<or> odd n) then n + 1 else n) * scale"
      using "1.prems"(2) by simp
    finally show ?thesis using True by (subst roundShift.simps) simp
  next
    case False
    have r: "roundShift n guard sticky scale
               = roundShift (n div 2) (odd n) (sticky \<or> guard) (2 * scale)"
      using False by (subst roundShift.simps) simp
    show ?thesis
    proof (cases k)
      case 0
      from False have "(2::int) ^ 0 \<le> n div 2" by simp
      from "1.IH" [OF False this] "1.prems"(2)
      have "2 ^ 0 * (2 * scale) \<le> roundShift (n div 2) (odd n) (sticky \<or> guard) (2 * scale)"
        by simp
      with 0 r "1.prems"(2) show ?thesis by simp
    next
      case (Suc j)
      with "1.prems"(1) have "(2::int) ^ j \<le> n div 2" by simp
      from "1.IH" [OF False this] "1.prems"(2)
      have "2 ^ j * (2 * scale) \<le> roundShift (n div 2) (odd n) (sticky \<or> guard) (2 * scale)"
        by simp
      with Suc r show ?thesis by simp
    qed
  qed
qed

lemma toDouble_overflow: "2 ^ 1024 \<le> i \<Longrightarrow> toDouble i = PosInfinity"
proof -
  assume a: "2 ^ 1024 \<le> i"
  have "(0::int) < 2 ^ 1024" by simp
  with a have p: "0 < i" by linarith
  then have "\<bar>i\<bar> = i" by simp
  with a have "2 ^ 1024 \<le> \<bar>i\<bar>" by simp
  from roundShift_lower [OF this, of 1 False False]
  have "2 ^ 1024 \<le> roundToEven \<bar>i\<bar>" by (simp add: roundToEven_def)
  with p show ?thesis unfolding toDouble_def Let_def by (simp only: if_True) simp
qed

lemma digitVal_nonneg: "isDigit c \<Longrightarrow> 0 \<le> digitVal c"
  by (auto simp: isDigit_def digitVal_def)

lemma digitVal_pos: "isDigit c \<Longrightarrow> c \<noteq> CHR ''0'' \<Longrightarrow> 1 \<le> digitVal c"
  by (auto simp: isDigit_def digitVal_def)

lemma foldl_digits_lower:
  "\<forall>c \<in> set ds. isDigit c \<Longrightarrow> 0 \<le> a \<Longrightarrow>
   a * 10 ^ length ds \<le> foldl (\<lambda>a c. 10 * a + digitVal c) a ds"
proof (induction ds arbitrary: a)
  case Nil
  then show ?case by simp
next
  case (Cons c ds)
  from Cons.prems have d: "0 \<le> digitVal c" by (simp add: digitVal_nonneg)
  with Cons.prems(2) have n: "0 \<le> 10 * a + digitVal c" by simp
  from Cons.prems(1) have r: "\<forall>c \<in> set ds. isDigit c" by simp
  have "a * 10 ^ length (c # ds) = (10 * a) * 10 ^ length ds" by simp
  also have "\<dots> \<le> (10 * a + digitVal c) * 10 ^ length ds"
    using d by (simp add: mult_right_mono)
  also have "\<dots> \<le> foldl (\<lambda>a c. 10 * a + digitVal c) (10 * a + digitVal c) ds"
    by (rule Cons.IH [OF r n])
  finally show ?case by simp
qed

lemma parseInt_overflow:
  assumes "isDigit c" and "c \<noteq> CHR ''0''" and "\<forall>d \<in> set ds. isDigit d" and "309 \<le> length ds"
  shows "parseInt (c # ds) = PosInfinity"
proof -
  have "(2::int) ^ 1024 \<le> 10 ^ 309" by simp
  also have "(10::int) ^ 309 \<le> 10 ^ length ds" using assms(4) by (rule power_increasing) simp
  also have "\<dots> \<le> digitVal c * 10 ^ length ds"
    using digitVal_pos [OF assms(1,2)] by (simp add: mult_right_mono)
  also have "\<dots> \<le> foldl (\<lambda>a c. 10 * a + digitVal c) (digitVal c) ds"
    using assms(3) digitVal_nonneg [OF assms(1)] by (rule foldl_digits_lower)
  finally have "2 ^ 1024 \<le> decimalValue (c # ds)" by (simp add: decimalValue_def)
  then show ?thesis by (simp only: parseInt_def toDouble_overflow)
qed

lemma digitsThenDot_digits:
  assumes "ds \<noteq> []" and "\<forall>c \<in> set ds. isDigit c"
  shows "digitsThenDot (ds @ CHR ''.'' # r) = Some (ds, r)"
proof -
  have n: "\<not> isDigit CHR ''.''" by (simp add: isDigit_def)
  have "takeWhile isDigit (ds @ CHR ''.'' # r) = ds"
    using assms(2) n by (simp add: takeWhile_append2)
  moreover have "dropWhile isDigit (ds @ CHR ''.'' # r) = CHR ''.'' # r"
    using assms(2) n by (simp add: dropWhile_append2)
  ultimately show ?thesis using assms(1) by (simp add: digitsThenDot_def Let_def)
qed

lemma parseVersion_digits:
  assumes "d1 \<noteq> []" "\<forall>c \<in> set d1. isDigit c" "d2 \<noteq> []" "\<forall>c \<in> set d2. isDigit c"
    "d3 \<noteq> []" "\<forall>c \<in> set d3. isDigit c"
  shows "parseVersion (d1 @ CHR ''.'' # d2 @ CHR ''.'' # d3)
           = Some \<lparr>major = parseInt d1, minor = parseInt d2, patch = parseInt d3\<rparr>"
proof -
  have t: "takeWhile isDigit d3 = d3" "dropWhile isDigit d3 = []"
    using assms(6) by (simp_all add: takeWhile_eq_all_conv)
  show ?thesis
    using assms(5)
    by (simp add: parseVersion_def digitsThenDot_digits [OF assms(1,2)]
        digitsThenDot_digits [OF assms(3,4)] t versionSuffixOk_def Let_def)
qed

lemma compareVersions_overflow:
  assumes "isDigit c" "c \<noteq> CHR ''0''" "isDigit d" "d \<noteq> CHR ''0''" "309 \<le> n"
  shows "compareVersions lc (''1.0.'' @ replicate (Suc n) c) (''1.0.'' @ replicate (Suc n) d) = NaN"
proof -
  have one: "''1'' \<noteq> []" "\<forall>x \<in> set ''1''. isDigit x" "''0'' \<noteq> []" "\<forall>x \<in> set ''0''. isDigit x"
    by (simp_all add: isDigit_def)
  have pc: "parseVersion (''1'' @ CHR ''.'' # ''0'' @ CHR ''.'' # replicate (Suc n) c)
      = Some \<lparr>major = parseInt ''1'', minor = parseInt ''0'', patch = parseInt (replicate (Suc n) c)\<rparr>"
    by (rule parseVersion_digits [OF one]) (use assms in auto)
  have pd: "parseVersion (''1'' @ CHR ''.'' # ''0'' @ CHR ''.'' # replicate (Suc n) d)
      = Some \<lparr>major = parseInt ''1'', minor = parseInt ''0'', patch = parseInt (replicate (Suc n) d)\<rparr>"
    by (rule parseVersion_digits [OF one]) (use assms in auto)
  have ic: "parseInt (replicate (Suc n) c) = PosInfinity"
    unfolding replicate_Suc by (rule parseInt_overflow) (use assms in auto)
  have id: "parseInt (replicate (Suc n) d) = PosInfinity"
    unfolding replicate_Suc by (rule parseInt_overflow) (use assms in auto)
  have s: "''1.0.'' @ replicate (Suc n) c = ''1'' @ CHR ''.'' # ''0'' @ CHR ''.'' # replicate (Suc n) c"
    "''1.0.'' @ replicate (Suc n) d = ''1'' @ CHR ''.'' # ''0'' @ CHR ''.'' # replicate (Suc n) d"
    by simp_all
  have "compareVersions lc (''1'' @ CHR ''.'' # ''0'' @ CHR ''.'' # replicate (Suc n) c)
          (''1'' @ CHR ''.'' # ''0'' @ CHR ''.'' # replicate (Suc n) d)
        = numSub (parseInt (replicate (Suc n) c)) (parseInt (replicate (Suc n) d))"
    by (subst compareVersions_parsed [OF pc pd]) simp
  also have "\<dots> = NaN" by (simp only: ic id numSub.simps)
  finally show ?thesis by (simp only: s)
qed

lemma compareVersions_unparsed:
  "parseVersion a = None \<Longrightarrow> compareVersions lc a b = Finite (lc a b)"
  by (simp add: compareVersions_def)

lemma compareVersions_antisym:
  assumes "(lc a b < 0) = (0 < lc b a)" and "(lc b a < 0) = (0 < lc a b)"
  shows "numLt (compareVersions lc a b) (Finite 0) = numLt (Finite 0) (compareVersions lc b a)"
    and "numLt (compareVersions lc b a) (Finite 0) = numLt (Finite 0) (compareVersions lc a b)"
proof -
  have "numLt (compareVersions lc a b) (Finite 0) = numLt (Finite 0) (compareVersions lc b a)
      \<and> numLt (compareVersions lc b a) (Finite 0) = numLt (Finite 0) (compareVersions lc a b)"
  proof (cases "parseVersion a")
    case None
    with assms show ?thesis by (simp add: compareVersions_def split: option.splits)
  next
    case (Some x)
    show ?thesis
    proof (cases "parseVersion b")
      case None
      with Some assms show ?thesis by (simp add: compareVersions_def)
    next
      case S2: (Some y)
      show ?thesis
        by (auto simp: compareVersions_parsed [OF Some S2] compareVersions_parsed [OF S2 Some]
            numSub_antisym)
    qed
  qed
  then show "numLt (compareVersions lc a b) (Finite 0) = numLt (Finite 0) (compareVersions lc b a)"
    and "numLt (compareVersions lc b a) (Finite 0) = numLt (Finite 0) (compareVersions lc a b)"
    by simp_all
qed

lemma numLe_zero_cases:
  "numLt c (Finite 0) \<Longrightarrow> numLe c (Finite 0)"
  "numLt (Finite 0) c \<Longrightarrow> \<not> numLe c (Finite 0)"
  by (cases c; simp add: numLe_def)+

lemma compareVersions_tie_parse:
  assumes "parseVersion lo = Some y" and "parseVersion hi = Some z"
    and "\<not> numLt (compareVersions lc lo hi) (Finite 0)"
    and "\<not> numLt (Finite 0) (compareVersions lc lo hi)"
  shows "y = z"
proof -
  note n = parseVersion_not_NaN [OF assms(1)] parseVersion_not_NaN [OF assms(2)]
  have nz: "\<And>a b. a \<noteq> b \<Longrightarrow> a \<noteq> NaN \<Longrightarrow> b \<noteq> NaN \<Longrightarrow>
       numLt (numSub a b) (Finite 0) \<or> numLt (Finite 0) (numSub a b)"
    using numSub_tie by blast
  from assms(3,4) have c: "major y = major z" "minor y = minor z"
    using nz n by (auto simp: compareVersions_parsed [OF assms(1,2)] split: if_splits)
  with assms(3,4) have "\<not> numLt (numSub (patch y) (patch z)) (Finite 0)"
    "\<not> numLt (Finite 0) (numSub (patch y) (patch z))"
    by (simp_all add: compareVersions_parsed [OF assms(1,2)])
  from numSub_tie [OF n(3) n(6) this] have "patch y = patch z" .
  with c show ?thesis by simp
qed

lemma isVersionInRange_swap:
  assumes "(lc lo hi < 0) = (0 < lc hi lo)" and "(lc hi lo < 0) = (0 < lc lo hi)"
    and "numLt (compareVersions lc lo hi) (Finite 0)
         \<or> numLt (Finite 0) (compareVersions lc lo hi)
         \<or> (parseVersion v \<noteq> None \<and> parseVersion lo \<noteq> None \<and> parseVersion hi \<noteq> None)"
  shows "isVersionInRange lc v lo hi = isVersionInRange lc v hi lo"
proof -
  note anti = compareVersions_antisym [of lc lo hi, OF assms(1,2)]
  consider (neg) "numLt (compareVersions lc lo hi) (Finite 0)"
    | (pos) "numLt (Finite 0) (compareVersions lc lo hi)"
    | (tie) "\<not> numLt (compareVersions lc lo hi) (Finite 0)"
        "\<not> numLt (Finite 0) (compareVersions lc lo hi)" by blast
  then show ?thesis
  proof cases
    case neg
    then have "numLt (Finite 0) (compareVersions lc hi lo)" using anti(1) by simp
    with neg show ?thesis
      by (simp add: isVersionInRange_def Let_def numLe_zero_cases)
  next
    case pos
    then have "numLt (compareVersions lc hi lo) (Finite 0)" using anti(2) by simp
    with pos show ?thesis
      by (simp add: isVersionInRange_def Let_def numLe_zero_cases)
  next
    case tie
    with assms(3) obtain x y z where p: "parseVersion v = Some x" "parseVersion lo = Some y"
      "parseVersion hi = Some z" by auto
    from compareVersions_tie_parse [OF p(2,3) tie] have yz: "y = z" .
    have e1: "compareVersions lc hi lo = compareVersions lc lo hi"
      using p yz by (simp add: compareVersions_parsed)
    have e2: "compareVersions lc v lo = compareVersions lc v hi"
      using p yz by (simp add: compareVersions_parsed)
    show ?thesis by (auto simp: isVersionInRange_def Let_def e1 e2)
  qed
qed

text \<open>
  Claim C4 says that \<open>isVersionInRange\<close> gives the same answer when its two bounds are
  exchanged, for all strings. It does not when the bounds are two different strings that
  compare equal and the version does not parse: \<open>minVersion\<close> is then the first bound
  in either order. Two bounds compare equal when they write the same triple with
  different suffixes or leading zeros, and when they write two numbers that round to the
  same double (\<open>9007199254740993\<close> is read as \<open>9007199254740992\<close>). Under the
  code-unit collation (the collation of the runtime orders these strings the same way: a
  proper prefix first, a space before a hyphen, the digit 0 before the digit 1) the label
  \<open>1.0.0 rc1\<close> lies after \<open>1.0.0\<close> and before \<open>1.0.0-rc2\<close>, the label \<open>1\<close>
  after \<open>01.0.0\<close> and before \<open>1.0.0\<close>, and \<open>9007199254740992.0.0 x\<close> after
  \<open>9007199254740992.0.0\<close> and before \<open>9007199254740993.0.0\<close>. When the comparison
  of the bounds is NaN the second bound is \<open>minVersion\<close> in either order: the label
  \<open>1.0.89x\<close> lies between the labels \<open>1.0.\<close> with 400 digits 8 and \<open>1.0.\<close> with
  400 digits 9, whose patch numbers are both read as Infinity.
\<close>

theorem isVersionInRange_asymmetric_counterexample:
  "isVersionInRange codeUnitCompare ''1.0.0 rc1'' ''1.0.0'' ''1.0.0-rc2''
     \<noteq> isVersionInRange codeUnitCompare ''1.0.0 rc1'' ''1.0.0-rc2'' ''1.0.0''
   \<and> isVersionInRange codeUnitCompare ''1'' ''01.0.0'' ''1.0.0''
     \<noteq> isVersionInRange codeUnitCompare ''1'' ''1.0.0'' ''01.0.0''
   \<and> isVersionInRange codeUnitCompare ''9007199254740992.0.0 x''
        ''9007199254740993.0.0'' ''9007199254740992.0.0''
     \<noteq> isVersionInRange codeUnitCompare ''9007199254740992.0.0 x''
        ''9007199254740992.0.0'' ''9007199254740993.0.0''
   \<and> isVersionInRange codeUnitCompare ''1.0.89x''
        (''1.0.'' @ replicate 400 (CHR ''9'')) (''1.0.'' @ replicate 400 (CHR ''8''))
     \<noteq> isVersionInRange codeUnitCompare ''1.0.89x''
        (''1.0.'' @ replicate 400 (CHR ''8'')) (''1.0.'' @ replicate 400 (CHR ''9''))
   \<and> compareVersions codeUnitCompare
        (''1.0.'' @ replicate 400 (CHR ''9'')) (''1.0.'' @ replicate 400 (CHR ''8'')) = NaN"
proof -
  have a: "isVersionInRange codeUnitCompare ''1.0.0 rc1'' ''1.0.0'' ''1.0.0-rc2''
     \<noteq> isVersionInRange codeUnitCompare ''1.0.0 rc1'' ''1.0.0-rc2'' ''1.0.0''" by code_simp
  have b: "isVersionInRange codeUnitCompare ''1'' ''01.0.0'' ''1.0.0''
     \<noteq> isVersionInRange codeUnitCompare ''1'' ''1.0.0'' ''01.0.0''" by code_simp
  have c: "isVersionInRange codeUnitCompare ''9007199254740992.0.0 x''
        ''9007199254740993.0.0'' ''9007199254740992.0.0''
     \<noteq> isVersionInRange codeUnitCompare ''9007199254740992.0.0 x''
        ''9007199254740992.0.0'' ''9007199254740993.0.0''" by code_simp
  define n9 where "n9 = ''1.0.'' @ replicate 400 (CHR ''9'')"
  define n8 where "n8 = ''1.0.'' @ replicate 400 (CHR ''8'')"
  have n: "compareVersions codeUnitCompare n9 n8 = NaN" "compareVersions codeUnitCompare n8 n9 = NaN"
    unfolding n9_def n8_def
    using compareVersions_overflow [of "CHR ''9''" "CHR ''8''" 399 codeUnitCompare]
      compareVersions_overflow [of "CHR ''8''" "CHR ''9''" 399 codeUnitCompare]
    by (simp_all add: isDigit_def)
  have u: "parseVersion ''1.0.89x'' = None" by code_simp
  have l: "codeUnitCompare ''1.0.89x'' n8 = 1" "codeUnitCompare ''1.0.89x'' n9 = -1"
    unfolding n9_def n8_def by code_simp+
  have "isVersionInRange codeUnitCompare ''1.0.89x'' n9 n8
     \<noteq> isVersionInRange codeUnitCompare ''1.0.89x'' n8 n9"
    by (simp add: isVersionInRange_def Let_def n l numLe_def compareVersions_unparsed [OF u])
  then have d: "isVersionInRange codeUnitCompare ''1.0.89x''
        (''1.0.'' @ replicate 400 (CHR ''9'')) (''1.0.'' @ replicate 400 (CHR ''8''))
     \<noteq> isVersionInRange codeUnitCompare ''1.0.89x''
        (''1.0.'' @ replicate 400 (CHR ''8'')) (''1.0.'' @ replicate 400 (CHR ''9''))"
    unfolding n9_def n8_def .
  have e: "compareVersions codeUnitCompare
        (''1.0.'' @ replicate 400 (CHR ''9'')) (''1.0.'' @ replicate 400 (CHR ''8'')) = NaN"
    using n(1) unfolding n9_def n8_def .
  from a b c d e show ?thesis by blast
qed

text \<open>
  Claim C4, amended: \<open>isVersionInRange v lo hi = isVersionInRange v hi lo\<close> whenever
  \<open>compareVersions lo hi\<close> is negative or positive (neither zero nor NaN), and whenever
  the version and both bounds parse as version triples; the collation of unparsed labels
  is only asked to be antisymmetric on the two bounds.
\<close>

theorem isVersionInRange_symmetric:
  assumes "(lc lo hi < 0) = (0 < lc hi lo)" and "(lc hi lo < 0) = (0 < lc lo hi)"
    and "numLt (compareVersions lc lo hi) (Finite 0)
         \<or> numLt (Finite 0) (compareVersions lc lo hi)
         \<or> (parseVersion v \<noteq> None \<and> parseVersion lo \<noteq> None \<and> parseVersion hi \<noteq> None)"
  shows "isVersionInRange lc v lo hi = isVersionInRange lc v hi lo"
  using assms by (rule isVersionInRange_swap)

theorem isVersionInRange_symmetric_witness:
  "isVersionInRange codeUnitCompare ''1.5.0'' ''2.0.0'' ''1.0.0''
   \<and> isVersionInRange codeUnitCompare ''1.5.0'' ''1.0.0'' ''2.0.0''
   \<and> numLt (Finite 0) (compareVersions codeUnitCompare ''2.0.0'' ''1.0.0'')"
proof -
  have h1: "(codeUnitCompare ''2.0.0'' ''1.0.0'' < 0) = (0 < codeUnitCompare ''1.0.0'' ''2.0.0'')"
    by simp
  have h2: "(codeUnitCompare ''1.0.0'' ''2.0.0'' < 0) = (0 < codeUnitCompare ''2.0.0'' ''1.0.0'')"
    by simp
  have h3: "numLt (Finite 0) (compareVersions codeUnitCompare ''2.0.0'' ''1.0.0'')"
    by code_simp
  have "isVersionInRange codeUnitCompare ''1.5.0'' ''1.0.0'' ''2.0.0''" by code_simp
  with isVersionInRange_symmetric [of codeUnitCompare "''2.0.0''" "''1.0.0''" "''1.5.0''", OF h1 h2]
    h3 show ?thesis by simp
qed

section \<open>Properties of the filters\<close>

text \<open>
  Claim C9: \<open>filterVersionsSince\<close> returns all the versions of the repository, in their
  stored order, when the version argument is \<^verbatim>\<open>null\<close>, empty or white space only;
  for any other argument it keeps exactly the versions \<open>v\<close> with
  \<open>isVersionNewer (version v) since\<close>, in their relative order. Against the labels
  2.1.0, 2.0.0, 1.5.2, 1.0.0 the boundary 1.5.1, which is none of them, keeps
  2.1.0, 2.0.0, 1.5.2, whatever the collation.
\<close>

theorem filterVersionsSince_spec:
  "filterVersionsSince lc rp None = versions rp
   \<and> ((\<forall>c \<in> set since. isWhiteSpace c) \<longrightarrow> filterVersionsSince lc rp (Some since) = versions rp)
   \<and> (\<not> (\<forall>c \<in> set since. isWhiteSpace c) \<longrightarrow>
        filterVersionsSince lc rp (Some since)
          = filter (\<lambda>v. isVersionNewer lc (version v) since) (versions rp))
   \<and> map version (filterVersionsSince lc
        (rp\<lparr>versions := map (\<lambda>l. \<lparr>version = l, date = None, changes = Map.empty\<rparr>)
                            [''2.1.0'', ''2.0.0'', ''1.5.2'', ''1.0.0'']\<rparr>) (Some ''1.5.1''))
       = [''2.1.0'', ''2.0.0'', ''1.5.2'']"
proof -
  have a: "filterVersionsSince lc rp None = versions rp"
    by (simp add: filterVersionsSince_def)
  have b: "(\<forall>c \<in> set since. isWhiteSpace c) \<longrightarrow> filterVersionsSince lc rp (Some since) = versions rp"
    by (simp add: filterVersionsSince_def trim_Nil_iff)
  have c: "\<not> (\<forall>c \<in> set since. isWhiteSpace c) \<longrightarrow>
        filterVersionsSince lc rp (Some since)
          = filter (\<lambda>v. isVersionNewer lc (version v) since) (versions rp)"
    by (auto simp: filterVersionsSince_def trim_Nil_iff)
  have n: "isVersionNewer lc ''2.1.0'' ''1.5.1''" "isVersionNewer lc ''2.0.0'' ''1.5.1''"
    "isVersionNewer lc ''1.5.2'' ''1.5.1''" "\<not> isVersionNewer lc ''1.0.0'' ''1.5.1''"
    by code_simp+
  have t: "trim ''1.5.1'' \<noteq> []" by code_simp
  have d: "map version (filterVersionsSince lc
        (rp\<lparr>versions := map (\<lambda>l. \<lparr>version = l, date = None, changes = Map.empty\<rparr>)
                            [''2.1.0'', ''2.0.0'', ''1.5.2'', ''1.0.0'']\<rparr>) (Some ''1.5.1''))
       = [''2.1.0'', ''2.0.0'', ''1.5.2'']"
    using t n by (simp add: filterVersionsSince_def)
  from a b c d show ?thesis by blast
qed

theorem filterVersionsSince_spec_witness:
  "map version (filterVersionsSince codeUnitCompare
        \<lparr>name = ''r'', path = ''p'',
         versions = [\<lparr>version = ''2.0.0'', date = None, changes = Map.empty\<rparr>,
                     \<lparr>version = ''1.0.0'', date = None, changes = Map.empty\<rparr>],
         unreleased = None\<rparr> (Some ''   '')) = [''2.0.0'', ''1.0.0'']
   \<and> map version (filterVersionsSince codeUnitCompare
        \<lparr>name = ''r'', path = ''p'',
         versions = [\<lparr>version = ''2.0.0'', date = None, changes = Map.empty\<rparr>,
                     \<lparr>version = ''1.0.0'', date = None, changes = Map.empty\<rparr>],
         unreleased = None\<rparr> (Some ''1.0.0'')) = [''2.0.0'']"
proof -
  let ?rp = "\<lparr>name = ''r'', path = ''p'',
         versions = [\<lparr>version = ''2.0.0'', date = None, changes = Map.empty\<rparr>,
                     \<lparr>version = ''1.0.0'', date = None, changes = Map.empty\<rparr>],
         unreleased = None\<rparr>"
  have h1: "\<forall>c \<in> set ''   ''. isWhiteSpace c" by (simp add: isWhiteSpace_def)
  have h2: "\<not> (\<forall>c \<in> set ''1.0.0''. isWhiteSpace c)" by (simp add: isWhiteSpace_def)
  have n: "isVersionNewer codeUnitCompare ''2.0.0'' ''1.0.0''"
    "\<not> isVersionNewer codeUnitCompare ''1.0.0'' ''1.0.0''" by code_simp+
  from filterVersionsSince_spec [of codeUnitCompare ?rp "''   ''"] h1
  have r1: "filterVersionsSince codeUnitCompare ?rp (Some ''   '') = versions ?rp" by blast
  from filterVersionsSince_spec [of codeUnitCompare ?rp "''1.0.0''"] h2
  have r2: "filterVersionsSince codeUnitCompare ?rp (Some ''1.0.0'')
             = filter (\<lambda>v. isVersionNewer codeUnitCompare (version v) ''1.0.0'') (versions ?rp)"
    by blast
  show ?thesis using n by (simp add: r1 r2)
qed

section \<open>Properties of the cache\<close>

lemma showNat_nonempty: "showNat n \<noteq> []"
  by (subst showNat.simps) simp

lemma digitChar_inj: "a < 10 \<Longrightarrow> b < 10 \<Longrightarrow> digitChar a = digitChar b \<Longrightarrow> a = b"
proof -
  assume a: "a < 10" and b: "b < 10" and e: "digitChar a = digitChar b"
  have d: "distinct ''0123456789''" by simp
  have "length ''0123456789'' = 10" by simp
  with a b e d show "a = b"
    unfolding digitChar_def by (metis nth_eq_iff_index_eq)
qed

lemma showNat_inj: "showNat a = showNat b \<Longrightarrow> a = b"
proof (induction a arbitrary: b rule: showNat.induct)
  case (1 n)
  show ?case
  proof (cases "n < 10")
    case True
    then have sn: "showNat n = [digitChar n]" by (subst showNat.simps) simp
    show ?thesis
    proof (cases "b < 10")
      case True
      then have "showNat b = [digitChar b]" by (subst showNat.simps) simp
      with sn "1.prems" \<open>n < 10\<close> True show ?thesis by (auto dest: digitChar_inj)
    next
      case False
      then have "showNat b = showNat (b div 10) @ [digitChar (b mod 10)]"
        by (subst showNat.simps) simp
      with sn "1.prems" showNat_nonempty [of "b div 10"] show ?thesis by auto
    qed
  next
    case False
    then have sn: "showNat n = showNat (n div 10) @ [digitChar (n mod 10)]"
      by (subst showNat.simps) simp
    show ?thesis
    proof (cases "b < 10")
      case True
      then have "showNat b = [digitChar b]" by (subst showNat.simps) simp
      with sn "1.prems" showNat_nonempty [of "n div 10"] show ?thesis by auto
    next
      case F: False
      then have sb: "showNat b = showNat (b div 10) @ [digitChar (b mod 10)]"
        by (subst showNat.simps) simp
      from sn sb "1.prems" have e1: "showNat (n div 10) = showNat (b div 10)"
        and e2: "digitChar (n mod 10) = digitChar (b mod 10)" by auto
      from "1.IH" [OF False e1] have "n div 10 = b div 10" .
      moreover from e2 have "n mod 10 = b mod 10" by (intro digitChar_inj) simp_all
      ultimately show ?thesis by (metis div_mult_mod_eq)
    qed
  qed
qed

lemma generateCacheKey_mtime_inj:
  "generateCacheKey rn m op ps = generateCacheKey rn m' op ps \<Longrightarrow> m = m'"
proof -
  assume "generateCacheKey rn m op ps = generateCacheKey rn m' op ps"
  then have "showNat m @ (''_'' @ op @ ''_'' @ ps) = showNat m' @ (''_'' @ op @ ''_'' @ ps)"
    by (simp add: generateCacheKey_def)
  then have "showNat m = showNat m'" by (simp only: append_same_eq)
  then show ?thesis by (rule showNat_inj)
qed

lemma get_never_rejects: "\<exists>r. fst (get cm w rn rpath op ps) = Inr r"
  by (auto simp: get_def split: option.splits sum.splits prod.splits)

lemma set_never_rejects: "fst (set_cache cm w rn rpath op ps payload) = Inr ()"
  by (auto simp: set_cache_def split: option.splits sum.splits prod.splits)

lemma get_unreadable:
  "statMtime w rpath = Inl e \<Longrightarrow> get cm w rn rpath op ps = (Inr None, cm)"
  by (auto simp: get_def getBody_def getFileMtime_def split: option.splits)

lemma set_unreadable:
  "statMtime w rpath = Inl e \<Longrightarrow> set_cache cm w rn rpath op ps payload = (Inr (), cm)"
  by (auto simp: set_cache_def setBody_def getFileMtime_def split: option.splits)

lemma get_never_deletes: "snd (get cm w rn rpath op ps) = cm"
  by (auto simp: get_def getBody_def createdAt_def Let_def
      split: option.splits sum.splits prod.splits)

lemma get_select_fails:
  "db cm = Some d \<Longrightarrow> failing d Select \<Longrightarrow> get cm w rn rpath op ps = (Inr None, cm)"
  by (auto simp: get_def getBody_def getFileMtime_def dbSelect_def Let_def split: option.splits)

lemma get_malformed:
  assumes "enabled cm" "db cm = Some d" "statMtime w rpath = Inr m" "\<not> failing d Select"
    "rows d (generateCacheKey rn m op ps) = Some entry" "data entry = Malformed"
  shows "get cm w rn rpath op ps = (Inr None, cm)"
  using assms
  by (simp add: get_def getBody_def getFileMtime_def dbSelect_def JSON_parse_def createdAt_def
      Let_def)

lemma set_upsert_fails:
  "db cm = Some d \<Longrightarrow> failing d Upsert \<Longrightarrow> set_cache cm w rn rpath op ps payload = (Inr (), cm)"
  by (auto simp: set_cache_def setBody_def getFileMtime_def dbUpsert_def Let_def split: option.splits)

lemma set_stores:
  assumes "enabled cm" "db cm = Some d" "statMtime w rpath = Inr m" "\<not> failing d Upsert"
  shows "set_cache cm w rn rpath op ps payload =
          (Inr (), cm\<lparr>db := Some (d\<lparr>rows := (rows d)(generateCacheKey rn m op ps \<mapsto>
             \<lparr>key = generateCacheKey rn m op ps, repo = rn, file_mtime = m,
              data = Json payload, created_at = now w\<rparr>)\<rparr>)\<rparr>)"
  using assms
  by (simp add: set_cache_def setBody_def getFileMtime_def dbUpsert_def JSON_stringify_def Let_def)

lemma get_hit:
  assumes "enabled cm" "db cm = Some d" "statMtime w rpath = Inr m" "\<not> failing d Select"
    "rows d (generateCacheKey rn m op ps) = Some entry" "data entry = Json payload"
  shows "get cm w rn rpath op ps = (Inr (Some payload), cm)"
  using assms
  by (simp add: get_def getBody_def getFileMtime_def dbSelect_def JSON_parse_def createdAt_def
      Let_def)

lemma get_absent:
  assumes "db cm = Some d" "statMtime w rpath = Inr m"
    "rows d (generateCacheKey rn m op ps) = None"
  shows "get cm w rn rpath op ps = (Inr None, cm)"
  using assms
  by (auto simp add: get_def getBody_def getFileMtime_def dbSelect_def Let_def)

text \<open>
  Claim C8 says, among other things, that a record which \<open>get\<close> finds older than the
  time to live is deleted and reported as a miss. \<open>get\<close> and \<open>set\<close> never reject,
  and an unreadable file or a failing statement gives a miss or a no-op, as claimed. But
  the test of the age reads \<^verbatim>\<open>entry.createdAt\<close>, a property the row does not have (the
  column is \<open>created_at\<close>): the age is NaN, no comparison with NaN holds, and the record
  is served whatever its age. \<open>get\<close> never changes the table; a record written at time
  0 is read back at time 100 under a time to live of 10, and is still in the table
  afterwards.
\<close>

theorem cache_expired_record_served:
  "snd (get cm w rn rpath op ps) = cm
   \<and> map_sum id (map_option (\<lambda>p. p Added))
       (fst (get (snd (set_cache
               \<lparr>enabled = True, db = Some \<lparr>rows = Map.empty, failing = (\<lambda>s. False)\<rparr>, ttlMs = 10\<rparr>
               \<lparr>statMtime = (\<lambda>p. Inr 5), now = 0\<rparr> ''r'' ''p'' ''since'' ''1.0.0''
               [Added \<mapsto> [\<lparr>descriptionW = ''old'', versionW = ''2.0.0'', dateW = None\<rparr>]]))
          \<lparr>statMtime = (\<lambda>p. Inr 5), now = 100\<rparr> ''r'' ''p'' ''since'' ''1.0.0''))
     = Inr (Some (Some [\<lparr>descriptionW = ''old'', versionW = ''2.0.0'', dateW = None\<rparr>]))
   \<and> map_option (\<lambda>d. map_option created_at (rows d ''r_5_since_1.0.0''))
       (db (snd (get (snd (set_cache
               \<lparr>enabled = True, db = Some \<lparr>rows = Map.empty, failing = (\<lambda>s. False)\<rparr>, ttlMs = 10\<rparr>
               \<lparr>statMtime = (\<lambda>p. Inr 5), now = 0\<rparr> ''r'' ''p'' ''since'' ''1.0.0''
               [Added \<mapsto> [\<lparr>descriptionW = ''old'', versionW = ''2.0.0'', dateW = None\<rparr>]]))
          \<lparr>statMtime = (\<lambda>p. Inr 5), now = 100\<rparr> ''r'' ''p'' ''since'' ''1.0.0'')))
     = Some (Some 0)"
proof -
  have a: "snd (get cm w rn rpath op ps) = cm" by (rule get_never_deletes)
  have b: "map_sum id (map_option (\<lambda>p. p Added))
       (fst (get (snd (set_cache
               \<lparr>enabled = True, db = Some \<lparr>rows = Map.empty, failing = (\<lambda>s. False)\<rparr>, ttlMs = 10\<rparr>
               \<lparr>statMtime = (\<lambda>p. Inr 5), now = 0\<rparr> ''r'' ''p'' ''since'' ''1.0.0''
               [Added \<mapsto> [\<lparr>descriptionW = ''old'', versionW = ''2.0.0'', dateW = None\<rparr>]]))
          \<lparr>statMtime = (\<lambda>p. Inr 5), now = 100\<rparr> ''r'' ''p'' ''since'' ''1.0.0''))
     = Inr (Some (Some [\<lparr>descriptionW = ''old'', versionW = ''2.0.0'', dateW = None\<rparr>]))"
    by (simp add: set_cache_def setBody_def get_def getBody_def getFileMtime_def
        generateCacheKey_def dbSelect_def dbUpsert_def JSON_parse_def JSON_stringify_def
        createdAt_def showNat.simps digitChar_def Let_def)
  have c: "map_option (\<lambda>d. map_option created_at (rows d ''r_5_since_1.0.0''))
       (db (snd (get (snd (set_cache
               \<lparr>enabled = True, db = Some \<lparr>rows = Map.empty, failing = (\<lambda>s. False)\<rparr>, ttlMs = 10\<rparr>
               \<lparr>statMtime = (\<lambda>p. Inr 5), now = 0\<rparr> ''r'' ''p'' ''since'' ''1.0.0''
               [Added \<mapsto> [\<lparr>descriptionW = ''old'', versionW = ''2.0.0'', dateW = None\<rparr>]]))
          \<lparr>statMtime = (\<lambda>p. Inr 5), now = 100\<rparr> ''r'' ''p'' ''since'' ''1.0.0'')))
     = Some (Some 0)"
    by (simp add: set_cache_def setBody_def get_def getBody_def getFileMtime_def
        generateCacheKey_def dbSelect_def dbUpsert_def JSON_parse_def JSON_stringify_def
        createdAt_def showNat.simps digitChar_def Let_def)
  from a b c show ?thesis by blast
qed

lemma get_after_set_same_mtime:
  assumes "enabled cm" "db cm = Some d" "\<not> failing d Upsert" "\<not> failing d Select"
    "statMtime w rpath = Inr m" "statMtime w' rpath = Inr m"
  shows "fst (get (snd (set_cache cm w rn rpath op ps payload)) w' rn rpath op ps)
           = Inr (Some payload)"
proof -
  let ?k = "generateCacheKey rn m op ps"
  let ?e = "\<lparr>key = ?k, repo = rn, file_mtime = m, data = Json payload, created_at = now w\<rparr>"
  let ?d' = "d\<lparr>rows := (rows d)(?k \<mapsto> ?e)\<rparr>"
  have s: "snd (set_cache cm w rn rpath op ps payload) = cm\<lparr>db := Some ?d'\<rparr>"
    using set_stores [OF assms(1,2,5,3)] by simp
  have "get (cm\<lparr>db := Some ?d'\<rparr>) w' rn rpath op ps = (Inr (Some payload), cm\<lparr>db := Some ?d'\<rparr>)"
    by (rule get_hit [where d = ?d' and m = m and entry = ?e]) (use assms in simp_all)
  with s show ?thesis by simp
qed

lemma get_after_set_other_mtime:
  assumes "enabled cm" "db cm = Some d" "\<not> failing d Upsert"
    "statMtime w rpath = Inr m" "statMtime w' rpath = Inr m'" "m' \<noteq> m"
    "rows d (generateCacheKey rn m' op ps) = None"
  shows "fst (get (snd (set_cache cm w rn rpath op ps payload)) w' rn rpath op ps) = Inr None"
proof -
  let ?k = "generateCacheKey rn m op ps"
  let ?e = "\<lparr>key = ?k, repo = rn, file_mtime = m, data = Json payload, created_at = now w\<rparr>"
  let ?d' = "d\<lparr>rows := (rows d)(?k \<mapsto> ?e)\<rparr>"
  have s: "snd (set_cache cm w rn rpath op ps payload) = cm\<lparr>db := Some ?d'\<rparr>"
    using set_stores [OF assms(1,2,4,3)] by simp
  have ne: "generateCacheKey rn m' op ps \<noteq> ?k"
    using assms(6) generateCacheKey_mtime_inj by blast
  have "get (cm\<lparr>db := Some ?d'\<rparr>) w' rn rpath op ps = (Inr None, cm\<lparr>db := Some ?d'\<rparr>)"
    by (rule get_absent [where d = ?d' and m = m']) (use assms ne in simp_all)
  with s show ?thesis by simp
qed

text \<open>
  Claim C7 says that after a \<open>set\<close> any change of the modification time makes a \<open>get\<close>
  with the same repository, operation and parameters a miss. The key of the \<open>get\<close> is
  then another key, but a record may sit under it already: written at modification time
  1, written again at modification time 2, the entry is read back from the first record
  once the file carries modification time 1 again.
\<close>

theorem cache_stale_hit_counterexample:
  "map_sum id (map_option (\<lambda>p. p Added))
     (fst (get (snd (set_cache (snd (set_cache
               \<lparr>enabled = True, db = Some \<lparr>rows = Map.empty, failing = (\<lambda>s. False)\<rparr>, ttlMs = 1000\<rparr>
               \<lparr>statMtime = (\<lambda>p. Inr 1), now = 0\<rparr> ''r'' ''p'' ''since'' ''1.0.0''
               [Added \<mapsto> [\<lparr>descriptionW = ''old'', versionW = ''2.0.0'', dateW = None\<rparr>]]))
             \<lparr>statMtime = (\<lambda>p. Inr 2), now = 1\<rparr> ''r'' ''p'' ''since'' ''1.0.0''
             [Added \<mapsto> [\<lparr>descriptionW = ''new'', versionW = ''2.0.0'', dateW = None\<rparr>]]))
        \<lparr>statMtime = (\<lambda>p. Inr 1), now = 2\<rparr> ''r'' ''p'' ''since'' ''1.0.0''))
   = Inr (Some (Some [\<lparr>descriptionW = ''old'', versionW = ''2.0.0'', dateW = None\<rparr>]))"
  by (simp add: set_cache_def setBody_def get_def getBody_def getFileMtime_def
      generateCacheKey_def dbSelect_def dbUpsert_def JSON_parse_def JSON_stringify_def
      createdAt_def showNat.simps digitChar_def Let_def)

text \<open>
  Claim C7, amended: with the cache enabled, the statements not failing and the file
  readable, a \<open>get\<close> after a \<open>set\<close> with the same arguments, the same modification time
  and an age within the time to live returns the payload written; with another
  modification time the key differs from the one written, and the \<open>get\<close> is a miss
  provided no record was stored under the new key before.
\<close>

theorem cache_roundtrip_and_invalidation:
  assumes "enabled cm" and "db cm = Some d" and "\<not> failing d Upsert" and "\<not> failing d Select"
    and "statMtime w rpath = Inr m"
  shows "(statMtime w' rpath = Inr m \<and> now w' - now w \<le> ttlMs cm \<longrightarrow>
            fst (get (snd (set_cache cm w rn rpath op ps payload)) w' rn rpath op ps)
              = Inr (Some payload))
       \<and> (statMtime w' rpath = Inr m' \<and> m' \<noteq> m
            \<and> rows d (generateCacheKey rn m' op ps) = None \<longrightarrow>
            generateCacheKey rn m' op ps \<noteq> generateCacheKey rn m op ps
            \<and> fst (get (snd (set_cache cm w rn rpath op ps payload)) w' rn rpath op ps)
                = Inr None)"
  using get_after_set_same_mtime [OF assms(1,2,3,4,5), of w' rn op ps payload]
    get_after_set_other_mtime [OF assms(1,2,3,5), of w' m' rn op ps payload]
    generateCacheKey_mtime_inj [of rn m' op ps m]
  by blast

theorem cache_roundtrip_and_invalidation_witness:
  "fst (get (snd (set_cache
          \<lparr>enabled = True, db = Some \<lparr>rows = Map.empty, failing = (\<lambda>s. False)\<rparr>, ttlMs = 1000\<rparr>
          \<lparr>statMtime = (\<lambda>p. Inr 5), now = 0\<rparr> ''r'' ''p'' ''since'' ''1.0.0'' Map.empty))
        \<lparr>statMtime = (\<lambda>p. Inr 5), now = 10\<rparr> ''r'' ''p'' ''since'' ''1.0.0'')
     = Inr (Some Map.empty)
   \<and> fst (get (snd (set_cache
          \<lparr>enabled = True, db = Some \<lparr>rows = Map.empty, failing = (\<lambda>s. False)\<rparr>, ttlMs = 1000\<rparr>
          \<lparr>statMtime = (\<lambda>p. Inr 5), now = 0\<rparr> ''r'' ''p'' ''since'' ''1.0.0'' Map.empty))
        \<lparr>statMtime = (\<lambda>p. Inr 6), now = 10\<rparr> ''r'' ''p'' ''since'' ''1.0.0'')
     = Inr None"
proof -
  let ?d = "\<lparr>rows = Map.empty, failing = (\<lambda>s::statement. False)\<rparr>"
  let ?cm = "\<lparr>enabled = True, db = Some ?d, ttlMs = 1000\<rparr>"
  let ?w = "\<lparr>statMtime = (\<lambda>p::string. Inr 5 :: error + nat), now = 0\<rparr>"
  let ?w5 = "\<lparr>statMtime = (\<lambda>p::string. Inr 5 :: error + nat), now = 10\<rparr>"
  let ?w6 = "\<lparr>statMtime = (\<lambda>p::string. Inr 6 :: error + nat), now = 10\<rparr>"
  have h: "enabled ?cm" "db ?cm = Some ?d" "\<not> failing ?d Upsert" "\<not> failing ?d Select"
    "statMtime ?w ''p'' = Inr 5" by simp_all
  from cache_roundtrip_and_invalidation [OF h, of ?w5 "''r''" "''since''" "''1.0.0''" Map.empty 6]
  have a: "fst (get (snd (set_cache ?cm ?w ''r'' ''p'' ''since'' ''1.0.0'' Map.empty))
             ?w5 ''r'' ''p'' ''since'' ''1.0.0'') = Inr (Some Map.empty)" by simp
  from cache_roundtrip_and_invalidation [OF h, of ?w6 "''r''" "''since''" "''1.0.0''" Map.empty 6]
  have b: "fst (get (snd (set_cache ?cm ?w ''r'' ''p'' ''since'' ''1.0.0'' Map.empty))
             ?w6 ''r'' ''p'' ''since'' ''1.0.0'') = Inr None" by simp
  from a b show ?thesis by blast
qed

section \<open>Properties of the diff entry points\<close>

lemma cachedChanges_total:
  "\<exists>p cm'. cachedChanges cm w rp op k vs = (Inr p, cm')"
proof -
  obtain x cm1 where g: "get cm w (name rp) (path rp) op k = (x, cm1)" by (cases "get cm w (name rp) (path rp) op k")
  from get_never_rejects [of cm w "name rp" "path rp" op k] g obtain r where x: "x = Inr r" by auto
  show ?thesis
  proof (cases r)
    case (Some p)
    with g x show ?thesis by (simp add: cachedChanges_def)
  next
    case None
    let ?c = "combineChangesWithVersions vs"
    obtain y cm2 where s: "set_cache cm1 w (name rp) (path rp) op k ?c = (y, cm2)"
      by (cases "set_cache cm1 w (name rp) (path rp) op k ?c")
    from set_never_rejects [of cm1 w "name rp" "path rp" op k ?c] s have "y = Inr ()" by simp
    with g x None s show ?thesis by (simp add: cachedChanges_def Let_def)
  qed
qed

lemma title_formatMarkdownDiff: "title (formatMarkdownDiff df rn chs ttl wd) = ttl"
  by (simp add: formatMarkdownDiff_def Let_def split: prod.splits)

lemma sanitizeTitle_Nil: "sanitizeTitle [] = []"
  by (simp add: sanitizeTitle_def)

text \<open>
  Claim C3 says that a custom title which sanitizes to the empty string, together with
  no since version, gives the title of the complete changelog. The code replaces the
  title by \<open>Complete Changelog\<close> only under \<^verbatim>\<open>if (!customTitle)\<close>: a custom title that
  was provided, whatever it sanitizes to, keeps \<open>New updates!\<close>.
\<close>

theorem createSinceDiff_title_counterexample:
  "map_sum id title (fst (createSinceDiff codeUnitCompare (\<lambda>s. None)
        \<lparr>enabled = False, db = None, ttlMs = 0\<rparr> \<lparr>statMtime = (\<lambda>p. Inr 5), now = 0\<rparr>
        \<lparr>name = ''r'', path = ''p'', versions = [], unreleased = None\<rparr>
        None (Some ''***'') False)) = Inr ''New updates!''"
proof -
  have s: "sanitizeTitle ''***'' = []" by code_simp
  show ?thesis
    by (simp add: createSinceDiff_def cachedChanges_def get_def set_cache_def Let_def
        title_formatMarkdownDiff s)
qed

text \<open>
  Claim C3, amended: \<open>createSinceDiff\<close> always returns, and its title is the sanitized
  custom title when one is provided and is not empty after sanitization; otherwise
  \<open>Complete Changelog\<close> when no since version was specified (\<^verbatim>\<open>null\<close> or blank) and
  no custom title was provided (none, or the empty string); otherwise \<open>New updates!\<close>.
\<close>

theorem createSinceDiff_title:
  "\<exists>md cm'. createSinceDiff lc df cm w rp since customTitle wd = (Inr md, cm')
     \<and> title md =
         (let provided = (case customTitle of None \<Rightarrow> [] | Some ct \<Rightarrow> ct);
              noVersion = (case since of None \<Rightarrow> True | Some s \<Rightarrow> trim s = [])
          in if sanitizeTitle provided \<noteq> [] then sanitizeTitle provided
             else if noVersion \<and> provided = [] then ''Complete Changelog''
             else ''New updates!'')"
proof -
  let ?k = "case since of None \<Rightarrow> ''complete'' | Some s \<Rightarrow> if s = [] then ''complete'' else s"
  obtain p cm' where c: "cachedChanges cm w rp ''since'' ?k (filterVersionsSince lc rp since) = (Inr p, cm')"
    using cachedChanges_total by blast
  have t: "trim [] = []" by (simp add: trim_def)
  show ?thesis
    using c t
    by (cases customTitle; cases since)
       (auto simp: createSinceDiff_def Let_def title_formatMarkdownDiff sanitizeTitle_Nil)
qed

theorem createSinceDiff_title_witness:
  "(\<exists>md cm'. createSinceDiff codeUnitCompare (\<lambda>s. None)
        \<lparr>enabled = False, db = None, ttlMs = 0\<rparr> \<lparr>statMtime = (\<lambda>p. Inr 5), now = 0\<rparr>
        \<lparr>name = ''r'', path = ''p'', versions = [], unreleased = None\<rparr>
        (Some ''1.0.0'') (Some ''**My** Title'') False = (Inr md, cm') \<and> title md = ''My Title'')
   \<and> (\<exists>md cm'. createSinceDiff codeUnitCompare (\<lambda>s. None)
        \<lparr>enabled = False, db = None, ttlMs = 0\<rparr> \<lparr>statMtime = (\<lambda>p. Inr 5), now = 0\<rparr>
        \<lparr>name = ''r'', path = ''p'', versions = [], unreleased = None\<rparr>
        None None False = (Inr md, cm') \<and> title md = ''Complete Changelog'')"
proof -
  have s: "sanitizeTitle ''**My** Title'' = ''My Title''" by code_simp
  have t: "trim ''1.0.0'' \<noteq> []" by code_simp
  show ?thesis
    using createSinceDiff_title [of codeUnitCompare "\<lambda>s. None"
        "\<lparr>enabled = False, db = None, ttlMs = 0\<rparr>" "\<lparr>statMtime = (\<lambda>p. Inr 5), now = 0\<rparr>"
        "\<lparr>name = ''r'', path = ''p'', versions = [], unreleased = None\<rparr>"
        "Some ''1.0.0''" "Some ''**My** Title''" False]
      createSinceDiff_title [of codeUnitCompare "\<lambda>s. None"
        "\<lparr>enabled = False, db = None, ttlMs = 0\<rparr>" "\<lparr>statMtime = (\<lambda>p. Inr 5), now = 0\<rparr>"
        "\<lparr>name = ''r'', path = ''p'', versions = [], unreleased = None\<rparr>"
        None None False]
    by (simp add: s t sanitizeTitle_Nil)
qed

text \<open>
  Claim C2 says that \<open>createSinceDiff\<close> returns what the uncached computation returns,
  whatever earlier calls stored, and that two different since arguments never share a
  cache key. The key of \<^verbatim>\<open>null\<close> is the marker \<open>complete\<close>, which is also the key of
  the version label \<open>complete\<close>: after a call without a version, the call for the label
  \<open>complete\<close> serves the whole changelog, where the uncached computation finds no version
  newer than \<open>complete\<close>.
\<close>

theorem createSinceDiff_marker_collision:
  "map_sum id content
     (fst (createSinceDiff codeUnitCompare (\<lambda>s. None)
        (snd (createSinceDiff codeUnitCompare (\<lambda>s. None)
               \<lparr>enabled = True, db = Some \<lparr>rows = Map.empty, failing = (\<lambda>s. False)\<rparr>,
                ttlMs = 1000\<rparr>
               \<lparr>statMtime = (\<lambda>p. Inr 5), now = 0\<rparr>
               \<lparr>name = ''r'', path = ''p'',
                versions = [\<lparr>version = ''1.0.0'', date = None,
                             changes = [Added \<mapsto> [\<lparr>description = ''Initial release''\<rparr>]]\<rparr>],
                unreleased = None\<rparr>
               None None False))
        \<lparr>statMtime = (\<lambda>p. Inr 5), now = 1\<rparr>
        \<lparr>name = ''r'', path = ''p'',
         versions = [\<lparr>version = ''1.0.0'', date = None,
                      changes = [Added \<mapsto> [\<lparr>description = ''Initial release''\<rparr>]]\<rparr>],
         unreleased = None\<rparr>
        (Some ''complete'') None False))
     = Inr ''# New updates!\<newline>\<newline>## Added\<newline>\<newline>- [1.0.0] Initial release\<newline>''
   \<and> content (formatMarkdownDiff (\<lambda>s. None) ''r''
        (combineChangesWithVersions (filterVersionsSince codeUnitCompare
           \<lparr>name = ''r'', path = ''p'',
            versions = [\<lparr>version = ''1.0.0'', date = None,
                         changes = [Added \<mapsto> [\<lparr>description = ''Initial release''\<rparr>]]\<rparr>],
            unreleased = None\<rparr> (Some ''complete'')))
        ''New updates!'' False)
     = ''# New updates!\<newline>\<newline>No changes found in the specified version range.\<newline>''"
proof -
  have t: "trim ''complete'' \<noteq> []" by code_simp
  have n: "\<not> isVersionNewer codeUnitCompare ''1.0.0'' ''complete''" by code_simp
  show ?thesis
    by (simp add: createSinceDiff_def cachedChanges_def set_cache_def setBody_def get_def
        getBody_def getFileMtime_def generateCacheKey_def dbSelect_def dbUpsert_def
        JSON_parse_def JSON_stringify_def createdAt_def showNat.simps digitChar_def Let_def
        filterVersionsSince_def combineChangesWithVersions_def sectionEntries_def sections_def
        formatMarkdownDiff_def formatSection_def entryLine_def sectionTitle_def t n)
qed

lemma filterVersionsBetween_swap:
  assumes "(lc v1 v2 < 0) = (0 < lc v2 v1)" and "(lc v2 v1 < 0) = (0 < lc v1 v2)"
    and "numLt (compareVersions lc v1 v2) (Finite 0)
         \<or> numLt (Finite 0) (compareVersions lc v1 v2)"
  shows "filterVersionsBetween lc rp v1 v2 = filterVersionsBetween lc rp v2 v1"
proof -
  have "\<And>v. isVersionInRange lc v v1 v2 = isVersionInRange lc v v2 v1"
    using assms by (intro isVersionInRange_swap) auto
  then show ?thesis by (simp add: filterVersionsBetween_def)
qed

lemma rangeBounds_swap:
  assumes "(lc v1 v2 < 0) = (0 < lc v2 v1)" and "(lc v2 v1 < 0) = (0 < lc v1 v2)"
    and "numLt (compareVersions lc v1 v2) (Finite 0)
         \<or> numLt (Finite 0) (compareVersions lc v1 v2)"
  shows "(if numLe (compareVersions lc v2 v1) (Finite 0) then v2 else v1)
           = (if numLe (compareVersions lc v1 v2) (Finite 0) then v1 else v2)"
    and "(if numLe (compareVersions lc v2 v1) (Finite 0) then v1 else v2)
           = (if numLe (compareVersions lc v1 v2) (Finite 0) then v2 else v1)"
proof -
  note anti = compareVersions_antisym [of lc v1 v2, OF assms(1,2)]
  from assms(3) have "(if numLe (compareVersions lc v2 v1) (Finite 0) then v2 else v1)
           = (if numLe (compareVersions lc v1 v2) (Finite 0) then v1 else v2)
     \<and> (if numLe (compareVersions lc v2 v1) (Finite 0) then v1 else v2)
           = (if numLe (compareVersions lc v1 v2) (Finite 0) then v2 else v1)"
  proof
    assume n: "numLt (compareVersions lc v1 v2) (Finite 0)"
    then have "numLt (Finite 0) (compareVersions lc v2 v1)" using anti(1) by simp
    with n show ?thesis by (simp add: numLe_zero_cases)
  next
    assume p: "numLt (Finite 0) (compareVersions lc v1 v2)"
    then have "numLt (compareVersions lc v2 v1) (Finite 0)" using anti(2) by simp
    with p show ?thesis by (simp add: numLe_zero_cases)
  qed
  then show "(if numLe (compareVersions lc v2 v1) (Finite 0) then v2 else v1)
           = (if numLe (compareVersions lc v1 v2) (Finite 0) then v1 else v2)"
    and "(if numLe (compareVersions lc v2 v1) (Finite 0) then v1 else v2)
           = (if numLe (compareVersions lc v1 v2) (Finite 0) then v2 else v1)"
    by simp_all
qed

lemma numLt_numLe_zero:
  assumes "numLt c (Finite 0) \<or> numLt (Finite 0) c"
  shows "numLe c (Finite 0) = numLt c (Finite 0)"
  using assms by (cases c) (auto simp: numLe_def)

text \<open>
  Claim C5 says that \<open>createRangeDiff\<close> gives the same cache key, content, title and
  bounds for the two orders of every pair of versions. Two different labels that compare
  equal are kept in the order of the call: \<open>1.0.0\<close> and \<open>1.0.0-rc1\<close> give two titles
  and two pairs of bounds.
\<close>

theorem createRangeDiff_tie_counterexample:
  "map_sum id (\<lambda>md. (title md, fromVersion md, toVersion md))
     (fst (createRangeDiff codeUnitCompare (\<lambda>s. None)
        \<lparr>enabled = False, db = None, ttlMs = 0\<rparr> \<lparr>statMtime = (\<lambda>p. Inr 5), now = 0\<rparr>
        \<lparr>name = ''r'', path = ''p'', versions = [], unreleased = None\<rparr>
        ''1.0.0'' ''1.0.0-rc1'' False))
     = Inr (''Changelog Diff: r (1.0.0 to 1.0.0-rc1)'', Some ''1.0.0'', Some ''1.0.0-rc1'')
   \<and> map_sum id (\<lambda>md. (title md, fromVersion md, toVersion md))
     (fst (createRangeDiff codeUnitCompare (\<lambda>s. None)
        \<lparr>enabled = False, db = None, ttlMs = 0\<rparr> \<lparr>statMtime = (\<lambda>p. Inr 5), now = 0\<rparr>
        \<lparr>name = ''r'', path = ''p'', versions = [], unreleased = None\<rparr>
        ''1.0.0-rc1'' ''1.0.0'' False))
     = Inr (''Changelog Diff: r (1.0.0-rc1 to 1.0.0)'', Some ''1.0.0-rc1'', Some ''1.0.0'')"
proof -
  have c: "compareVersions codeUnitCompare ''1.0.0'' ''1.0.0-rc1'' = Finite 0"
    "compareVersions codeUnitCompare ''1.0.0-rc1'' ''1.0.0'' = Finite 0" by code_simp+
  show ?thesis
    by (simp add: createRangeDiff_def cachedChanges_def get_def set_cache_def Let_def
        title_formatMarkdownDiff c numLe_def formatMarkdownDiff_def split: prod.splits)
qed

text \<open>
  Claim C5, amended: \<open>createRangeDiff\<close> always returns, with \<open>fromVersion\<close> the first
  argument and \<open>toVersion\<close> the second when \<open>compareVersions\<close> of the two is negative or
  zero, and the other way round when it is positive or NaN; the title names the two
  bounds in that order. In particular two labels that compare equal are kept in the order
  of the call, and two labels whose comparison is NaN are exchanged. For two versions whose comparison is negative or positive (the collation
  of unparsed labels being antisymmetric on them), the call with the arguments in either
  order, from the same cache and world, returns the same response and leaves the same
  cache, under the same cache key; \<open>fromVersion\<close> is then the smaller and \<open>toVersion\<close>
  the larger of the two by \<open>compareVersions\<close>.
\<close>

theorem createRangeDiff_order_independent:
  "(\<exists>md cm'. createRangeDiff lc df cm w rp v1 v2 wd = (Inr md, cm')
      \<and> fromVersion md
          = Some (if numLe (compareVersions lc v1 v2) (Finite 0) then v1 else v2)
      \<and> toVersion md
          = Some (if numLe (compareVersions lc v1 v2) (Finite 0) then v2 else v1)
      \<and> title md
          = ''Changelog Diff: '' @ name rp @ '' (''
            @ (if numLe (compareVersions lc v1 v2) (Finite 0) then v1 else v2) @ '' to ''
            @ (if numLe (compareVersions lc v1 v2) (Finite 0) then v2 else v1) @ '')''
      \<and> (compareVersions lc v1 v2 = Finite 0 \<longrightarrow>
            fromVersion md = Some v1 \<and> toVersion md = Some v2)
      \<and> (compareVersions lc v1 v2 = NaN \<longrightarrow>
            fromVersion md = Some v2 \<and> toVersion md = Some v1))
   \<and> ((lc v1 v2 < 0) = (0 < lc v2 v1) \<and> (lc v2 v1 < 0) = (0 < lc v1 v2)
        \<and> (numLt (compareVersions lc v1 v2) (Finite 0)
             \<or> numLt (Finite 0) (compareVersions lc v1 v2)) \<longrightarrow>
        createRangeDiff lc df cm w rp v1 v2 wd = createRangeDiff lc df cm w rp v2 v1 wd
        \<and> (if numLe (compareVersions lc v1 v2) (Finite 0) then v1 else v2) @ ''_''
            @ (if numLe (compareVersions lc v1 v2) (Finite 0) then v2 else v1)
          = (if numLe (compareVersions lc v2 v1) (Finite 0) then v2 else v1) @ ''_''
            @ (if numLe (compareVersions lc v2 v1) (Finite 0) then v1 else v2)
        \<and> (\<exists>md cm'. createRangeDiff lc df cm w rp v1 v2 wd = (Inr md, cm')
              \<and> fromVersion md
                  = Some (if numLt (compareVersions lc v1 v2) (Finite 0) then v1 else v2)
              \<and> toVersion md
                  = Some (if numLt (compareVersions lc v1 v2) (Finite 0) then v2 else v1)
              \<and> (\<exists>a b. fromVersion md = Some a \<and> toVersion md = Some b
                    \<and> numLt (compareVersions lc a b) (Finite 0))))"
proof -
  let ?min = "if numLe (compareVersions lc v1 v2) (Finite 0) then v1 else v2"
  let ?max = "if numLe (compareVersions lc v1 v2) (Finite 0) then v2 else v1"
  obtain p cm' where c: "cachedChanges cm w rp ''diff'' (?min @ ''_'' @ ?max)
      (filterVersionsBetween lc rp v1 v2) = (Inr p, cm')"
    using cachedChanges_total by blast
  let ?md = "(formatMarkdownDiff df (name rp) p
                (''Changelog Diff: '' @ name rp @ '' ('' @ ?min @ '' to '' @ ?max @ '')'') wd)
             \<lparr>fromVersion := Some ?min, toVersion := Some ?max\<rparr>"
  have r: "createRangeDiff lc df cm w rp v1 v2 wd = (Inr ?md, cm')"
    using c by (simp add: createRangeDiff_def Let_def)
  have f: "fromVersion ?md = Some ?min" "toVersion ?md = Some ?max"
    "title ?md = ''Changelog Diff: '' @ name rp @ '' ('' @ ?min @ '' to '' @ ?max @ '')''"
    by (simp_all add: title_formatMarkdownDiff)
  have tie: "compareVersions lc v1 v2 = Finite 0 \<longrightarrow>
            fromVersion ?md = Some v1 \<and> toVersion ?md = Some v2"
    by (simp add: numLe_def)
  have nan: "compareVersions lc v1 v2 = NaN \<longrightarrow>
            fromVersion ?md = Some v2 \<and> toVersion ?md = Some v1"
    by (simp add: numLe_def)
  have first: "\<exists>md cm'. createRangeDiff lc df cm w rp v1 v2 wd = (Inr md, cm')
      \<and> fromVersion md = Some ?min \<and> toVersion md = Some ?max
      \<and> title md = ''Changelog Diff: '' @ name rp @ '' ('' @ ?min @ '' to '' @ ?max @ '')''
      \<and> (compareVersions lc v1 v2 = Finite 0 \<longrightarrow>
            fromVersion md = Some v1 \<and> toVersion md = Some v2)
      \<and> (compareVersions lc v1 v2 = NaN \<longrightarrow>
            fromVersion md = Some v2 \<and> toVersion md = Some v1)"
    using r f tie nan by blast
  have second: "createRangeDiff lc df cm w rp v1 v2 wd = createRangeDiff lc df cm w rp v2 v1 wd
        \<and> ?min @ ''_'' @ ?max
          = (if numLe (compareVersions lc v2 v1) (Finite 0) then v2 else v1) @ ''_''
            @ (if numLe (compareVersions lc v2 v1) (Finite 0) then v1 else v2)
        \<and> (\<exists>md cm'. createRangeDiff lc df cm w rp v1 v2 wd = (Inr md, cm')
              \<and> fromVersion md
                  = Some (if numLt (compareVersions lc v1 v2) (Finite 0) then v1 else v2)
              \<and> toVersion md
                  = Some (if numLt (compareVersions lc v1 v2) (Finite 0) then v2 else v1)
              \<and> (\<exists>a b. fromVersion md = Some a \<and> toVersion md = Some b
                    \<and> numLt (compareVersions lc a b) (Finite 0)))"
    if h: "(lc v1 v2 < 0) = (0 < lc v2 v1)" "(lc v2 v1 < 0) = (0 < lc v1 v2)"
      "numLt (compareVersions lc v1 v2) (Finite 0)
         \<or> numLt (Finite 0) (compareVersions lc v1 v2)"
  proof -
    note b = rangeBounds_swap [OF h]
    note fl = filterVersionsBetween_swap [OF h, of rp]
    have eq: "createRangeDiff lc df cm w rp v1 v2 wd = createRangeDiff lc df cm w rp v2 v1 wd"
      unfolding createRangeDiff_def by (simp only: b fl)
    have key: "?min @ ''_'' @ ?max
          = (if numLe (compareVersions lc v2 v1) (Finite 0) then v2 else v1) @ ''_''
            @ (if numLe (compareVersions lc v2 v1) (Finite 0) then v1 else v2)"
      by (simp only: b)
    note le = numLt_numLe_zero [OF h(3)]
    have lt: "numLt (compareVersions lc ?min ?max) (Finite 0)"
      using compareVersions_antisym [of lc v1 v2, OF h(1,2)] h(3) by (auto simp: le)
    have "fromVersion ?md
             = Some (if numLt (compareVersions lc v1 v2) (Finite 0) then v1 else v2)"
      "toVersion ?md
             = Some (if numLt (compareVersions lc v1 v2) (Finite 0) then v2 else v1)"
      by (simp_all add: le)
    with r f lt eq key show ?thesis by blast
  qed
  from first second show ?thesis by blast
qed

theorem createRangeDiff_order_independent_witness:
  "createRangeDiff codeUnitCompare (\<lambda>s. None)
        \<lparr>enabled = True, db = Some \<lparr>rows = Map.empty, failing = (\<lambda>s. False)\<rparr>, ttlMs = 1000\<rparr>
        \<lparr>statMtime = (\<lambda>p. Inr 5), now = 0\<rparr>
        \<lparr>name = ''r'', path = ''p'', versions = [], unreleased = None\<rparr>
        ''2.0.0'' ''1.0.0'' False
   = createRangeDiff codeUnitCompare (\<lambda>s. None)
        \<lparr>enabled = True, db = Some \<lparr>rows = Map.empty, failing = (\<lambda>s. False)\<rparr>, ttlMs = 1000\<rparr>
        \<lparr>statMtime = (\<lambda>p. Inr 5), now = 0\<rparr>
        \<lparr>name = ''r'', path = ''p'', versions = [], unreleased = None\<rparr>
        ''1.0.0'' ''2.0.0'' False
   \<and> (\<exists>md cm'. createRangeDiff codeUnitCompare (\<lambda>s. None)
        \<lparr>enabled = True, db = Some \<lparr>rows = Map.empty, failing = (\<lambda>s. False)\<rparr>, ttlMs = 1000\<rparr>
        \<lparr>statMtime = (\<lambda>p. Inr 5), now = 0\<rparr>
        \<lparr>name = ''r'', path = ''p'', versions = [], unreleased = None\<rparr>
        ''2.0.0'' ''1.0.0'' False = (Inr md, cm')
        \<and> fromVersion md = Some ''1.0.0'' \<and> toVersion md = Some ''2.0.0'')
   \<and> (\<exists>md cm'. createRangeDiff codeUnitCompare (\<lambda>s. None)
        \<lparr>enabled = True, db = Some \<lparr>rows = Map.empty, failing = (\<lambda>s. False)\<rparr>, ttlMs = 1000\<rparr>
        \<lparr>statMtime = (\<lambda>p. Inr 5), now = 0\<rparr>
        \<lparr>name = ''r'', path = ''p'', versions = [], unreleased = None\<rparr>
        ''1.0.0+b'' ''1.0.0-rc1'' False = (Inr md, cm')
        \<and> fromVersion md = Some ''1.0.0+b'' \<and> toVersion md = Some ''1.0.0-rc1'')
   \<and> (\<exists>md cm'. createRangeDiff codeUnitCompare (\<lambda>s. None)
        \<lparr>enabled = True, db = Some \<lparr>rows = Map.empty, failing = (\<lambda>s. False)\<rparr>, ttlMs = 1000\<rparr>
        \<lparr>statMtime = (\<lambda>p. Inr 5), now = 0\<rparr>
        \<lparr>name = ''r'', path = ''p'', versions = [], unreleased = None\<rparr>
        (''1.0.'' @ replicate 400 (CHR ''9'')) (''1.0.'' @ replicate 400 (CHR ''8'')) False
          = (Inr md, cm')
        \<and> fromVersion md = Some (''1.0.'' @ replicate 400 (CHR ''8''))
        \<and> toVersion md = Some (''1.0.'' @ replicate 400 (CHR ''9'')))"
proof -
  have h1: "(codeUnitCompare ''2.0.0'' ''1.0.0'' < 0) = (0 < codeUnitCompare ''1.0.0'' ''2.0.0'')"
    by simp
  have h2: "(codeUnitCompare ''1.0.0'' ''2.0.0'' < 0) = (0 < codeUnitCompare ''2.0.0'' ''1.0.0'')"
    by simp
  have c: "compareVersions codeUnitCompare ''2.0.0'' ''1.0.0'' = Finite 1" by code_simp
  then have h3: "numLt (compareVersions codeUnitCompare ''2.0.0'' ''1.0.0'') (Finite 0)
         \<or> numLt (Finite 0) (compareVersions codeUnitCompare ''2.0.0'' ''1.0.0'')" by simp
  have z: "compareVersions codeUnitCompare ''1.0.0+b'' ''1.0.0-rc1'' = Finite 0" by code_simp
  let ?cm = "\<lparr>enabled = True, db = Some \<lparr>rows = Map.empty, failing = (\<lambda>s::statement. False)\<rparr>,
              ttlMs = 1000\<rparr>"
  let ?w = "\<lparr>statMtime = (\<lambda>p::string. Inr 5 :: error + nat), now = 0\<rparr>"
  let ?rp = "\<lparr>name = ''r'', path = ''p'', versions = [], unreleased = None\<rparr>"
  note t = createRangeDiff_order_independent
    [of codeUnitCompare "\<lambda>s. None" ?cm ?w ?rp "''2.0.0''" "''1.0.0''" False]
  from t h1 h2 h3
  have a: "createRangeDiff codeUnitCompare (\<lambda>s. None) ?cm ?w ?rp ''2.0.0'' ''1.0.0'' False
      = createRangeDiff codeUnitCompare (\<lambda>s. None) ?cm ?w ?rp ''1.0.0'' ''2.0.0'' False"
    by blast
  from t h1 h2 h3 obtain md cm' where
    m: "createRangeDiff codeUnitCompare (\<lambda>s. None) ?cm ?w ?rp ''2.0.0'' ''1.0.0'' False = (Inr md, cm')"
      "fromVersion md = Some (if numLt (compareVersions codeUnitCompare ''2.0.0'' ''1.0.0'') (Finite 0)
                              then ''2.0.0'' else ''1.0.0'')"
      "toVersion md = Some (if numLt (compareVersions codeUnitCompare ''2.0.0'' ''1.0.0'') (Finite 0)
                            then ''1.0.0'' else ''2.0.0'')"
    by blast
  from m(2,3) have "fromVersion md = Some ''1.0.0''" "toVersion md = Some ''2.0.0''"
    by (simp_all add: c)
  with m(1) have b: "\<exists>md cm'.
      createRangeDiff codeUnitCompare (\<lambda>s. None) ?cm ?w ?rp ''2.0.0'' ''1.0.0'' False = (Inr md, cm')
      \<and> fromVersion md = Some ''1.0.0'' \<and> toVersion md = Some ''2.0.0''" by blast
  note t2 = createRangeDiff_order_independent
    [of codeUnitCompare "\<lambda>s. None" ?cm ?w ?rp "''1.0.0+b''" "''1.0.0-rc1''" False]
  from t2 z have d: "\<exists>md cm'.
      createRangeDiff codeUnitCompare (\<lambda>s. None) ?cm ?w ?rp ''1.0.0+b'' ''1.0.0-rc1'' False
        = (Inr md, cm')
      \<and> fromVersion md = Some ''1.0.0+b'' \<and> toVersion md = Some ''1.0.0-rc1''" by blast
  define n9 where "n9 = ''1.0.'' @ replicate 400 (CHR ''9'')"
  define n8 where "n8 = ''1.0.'' @ replicate 400 (CHR ''8'')"
  have n: "compareVersions codeUnitCompare n9 n8 = NaN"
    unfolding n9_def n8_def
    using compareVersions_overflow [of "CHR ''9''" "CHR ''8''" 399 codeUnitCompare]
    by (simp add: isDigit_def)
  note t3 = createRangeDiff_order_independent
    [of codeUnitCompare "\<lambda>s. None" ?cm ?w ?rp n9 n8 False]
  from t3 n have "\<exists>md cm'.
      createRangeDiff codeUnitCompare (\<lambda>s. None) ?cm ?w ?rp n9 n8 False = (Inr md, cm')
      \<and> fromVersion md = Some n8 \<and> toVersion md = Some n9" by blast
  then have e: "\<exists>md cm'.
      createRangeDiff codeUnitCompare (\<lambda>s. None) ?cm ?w ?rp
        (''1.0.'' @ replicate 400 (CHR ''9'')) (''1.0.'' @ replicate 400 (CHR ''8'')) False
        = (Inr md, cm')
      \<and> fromVersion md = Some (''1.0.'' @ replicate 400 (CHR ''8''))
      \<and> toVersion md = Some (''1.0.'' @ replicate 400 (CHR ''9''))"
    unfolding n9_def n8_def .
  from a b d e show ?thesis by blast
qed

section \<open>Properties of the parser\<close>

lemma matchVersionHeader_Nil: "matchVersionHeader [] = None"
  by (simp add: matchVersionHeader_def)

lemma parseLine_header:
  assumes "matchVersionHeader (trim l) = Some (g1, g2)"
  shows "parseLine st l =
           \<lparr>repository = saveVersion st,
            currentVersion = Some
              \<lparr>version = trim g1,
               date = (case map_option trim g2 of None \<Rightarrow> None
                       | Some d \<Rightarrow> if d \<noteq> [] then Some d else None),
               changes = Map.empty\<rparr>,
            currentSection = None,
            isUnreleased = (toLowerCase (trim g1) = ''unreleased'')\<rparr>"
proof -
  from assms have "trim l \<noteq> []" by (auto simp: matchVersionHeader_Nil)
  with assms show ?thesis by (simp add: parseLine_def Let_def)
qed

lemma parseLine_other_frame:
  assumes "matchVersionHeader (trim l) = None"
  shows "repository (parseLine st l) = repository st"
    and "isUnreleased (parseLine st l) = isUnreleased st"
  using assms by (auto simp: parseLine_def Let_def split: option.splits)

lemma parseLine_other_moves:
  assumes "matchVersionHeader (trim l) = None"
  shows "parseLine (st\<lparr>repository := r, isUnreleased := u\<rparr>) l
           = (parseLine st l)\<lparr>repository := r, isUnreleased := u\<rparr>"
  using assms by (auto simp: parseLine_def Let_def split: option.splits)

lemma section_not_version:
  assumes "matchSectionHeader t = Some g"
  shows "matchVersionHeader t = None" and "t \<noteq> []" and "matchListItem t = None"
proof -
  from assms have t3: "take 3 t = ''###''" by (auto simp: matchSectionHeader_def split: if_splits)
  then obtain r where t: "t = CHR ''#'' # CHR ''#'' # CHR ''#'' # r"
    by (cases t; cases "tl t"; cases "tl (tl t)") auto
  show "matchVersionHeader t = None" by (simp add: t matchVersionHeader_def isWhiteSpace_def)
  show "t \<noteq> []" by (simp add: t)
  show "matchListItem t = None" by (simp add: t matchListItem_def)
qed

lemma item_not_header:
  assumes "matchListItem t = Some g"
  shows "matchVersionHeader t = None" and "t \<noteq> []" and "matchSectionHeader t = None"
proof -
  from assms obtain c r where t: "t = c # r" "c = CHR ''-'' \<or> c = CHR ''*''"
    by (auto simp: matchListItem_def split: list.splits if_splits)
  show "matchVersionHeader t = None" using t by (auto simp: matchVersionHeader_def split: list.splits)
  show "t \<noteq> []" using t by simp
  show "matchSectionHeader t = None" using t by (auto simp: matchSectionHeader_def)
qed

text \<open>
  Claim C1 says that a \<^verbatim>\<open>###\<close> line whose name is none of the six categories un-sets
  the current section, so that the list items after it are dropped. The loop only
  \<^verbatim>\<open>continue\<close>s on such a line: under \<open>Added\<close>, the item that follows \<open>### Notes\<close>
  is still appended to \<open>added\<close>.
\<close>

theorem unknown_section_counterexample:
  "map (\<lambda>v. changes v Added)
     (versions (parseContent ''r'' ''p'' ''## [1.0.0]\<newline>### Added\<newline>### Notes\<newline>- x''))
     = [Some [\<lparr>description = ''x''\<rparr>]]
   \<and> currentSection (foldl parseLine (initialState ''r'' ''p'')
        [''## [1.0.0]'', ''### Added'', ''### Notes'']) = Some Added"
  by code_simp

text \<open>
  Claim C1, amended: a \<^verbatim>\<open>###\<close> line whose name (trimmed, lower-cased) is none of the
  six categories leaves the state of the loop as it is, the current section included.
  A list item after it is appended to the category that was current before the line,
  and is dropped only when no category was current.
\<close>

theorem unknown_section_keeps_current:
  assumes "matchSectionHeader (trim line) = Some g"
    and "validSection (toLowerCase (trim g)) = None"
  shows "parseLine st line = st
       \<and> (matchListItem (trim item) = Some d \<and> currentVersion st = Some cv
            \<and> currentSection st = Some sect \<longrightarrow>
            parseLine (parseLine st line) item =
              st\<lparr>currentVersion := Some
                   (cv\<lparr>changes := (changes cv)(sect \<mapsto>
                        (case changes cv sect of None \<Rightarrow> [] | Some es \<Rightarrow> es)
                          @ [\<lparr>description = trim d\<rparr>])\<rparr>)\<rparr>)
       \<and> (matchListItem (trim item) = Some d \<and> currentSection st = None \<longrightarrow>
            parseLine (parseLine st line) item = st)"
proof -
  note s = section_not_version [OF assms(1)]
  have a: "parseLine st line = st"
    using assms s by (auto simp: parseLine_def Let_def split: option.splits)
  have b: "matchListItem (trim item) = Some d \<and> currentVersion st = Some cv
            \<and> currentSection st = Some sect \<longrightarrow>
            parseLine st item =
              st\<lparr>currentVersion := Some
                   (cv\<lparr>changes := (changes cv)(sect \<mapsto>
                        (case changes cv sect of None \<Rightarrow> [] | Some es \<Rightarrow> es)
                          @ [\<lparr>description = trim d\<rparr>])\<rparr>)\<rparr>"
  proof (intro impI, elim conjE)
    assume i: "matchListItem (trim item) = Some d" and c: "currentVersion st = Some cv"
      "currentSection st = Some sect"
    note n = item_not_header [OF i]
    show "parseLine st item =
              st\<lparr>currentVersion := Some
                   (cv\<lparr>changes := (changes cv)(sect \<mapsto>
                        (case changes cv sect of None \<Rightarrow> [] | Some es \<Rightarrow> es)
                          @ [\<lparr>description = trim d\<rparr>])\<rparr>)\<rparr>"
      using i c n by (simp add: parseLine_def Let_def)
  qed
  have c: "matchListItem (trim item) = Some d \<and> currentSection st = None \<longrightarrow>
            parseLine st item = st"
  proof (intro impI, elim conjE)
    assume i: "matchListItem (trim item) = Some d" and c: "currentSection st = None"
    note n = item_not_header [OF i]
    show "parseLine st item = st"
      using i c n by (simp add: parseLine_def Let_def split: option.splits)
  qed
  from a b c show ?thesis by simp
qed

theorem unknown_section_keeps_current_witness:
  "parseLine
     \<lparr>repository = \<lparr>name = ''r'', path = ''p'', versions = [], unreleased = None\<rparr>,
      currentVersion = Some \<lparr>version = ''1.0.0'', date = None, changes = [Added \<mapsto> []]\<rparr>,
      currentSection = Some Added, isUnreleased = False\<rparr> ''### Notes''
   = \<lparr>repository = \<lparr>name = ''r'', path = ''p'', versions = [], unreleased = None\<rparr>,
      currentVersion = Some \<lparr>version = ''1.0.0'', date = None, changes = [Added \<mapsto> []]\<rparr>,
      currentSection = Some Added, isUnreleased = False\<rparr>
   \<and> map_option (\<lambda>v. changes v Added) (currentVersion (parseLine (parseLine
     \<lparr>repository = \<lparr>name = ''r'', path = ''p'', versions = [], unreleased = None\<rparr>,
      currentVersion = Some \<lparr>version = ''1.0.0'', date = None, changes = [Added \<mapsto> []]\<rparr>,
      currentSection = Some Added, isUnreleased = False\<rparr> ''### Notes'') ''- x''))
     = Some (Some [\<lparr>description = ''x''\<rparr>])"
proof -
  let ?cv = "\<lparr>version = ''1.0.0'', date = None, changes = [Added \<mapsto> ([]::ChangelogEntry list)]\<rparr>"
  let ?st = "\<lparr>repository = \<lparr>name = ''r'', path = ''p'', versions = [], unreleased = None\<rparr>,
      currentVersion = Some ?cv, currentSection = Some Added, isUnreleased = False\<rparr>"
  have h1: "matchSectionHeader (trim ''### Notes'') = Some ''Notes''" by code_simp
  have h2: "validSection (toLowerCase (trim ''Notes'')) = None" by code_simp
  have h3: "matchListItem (trim ''- x'') = Some ''x''" by code_simp
  have t: "trim ''x'' = ''x''" by code_simp
  note u = unknown_section_keeps_current [OF h1 h2, of ?st "''- x''" "''x''" ?cv Added]
  from u have a: "parseLine ?st ''### Notes'' = ?st" by (rule conjunct1)
  have c1: "currentVersion ?st = Some ?cv" and c2: "currentSection ?st = Some Added" by simp_all
  from u h3 c1 c2 have b: "parseLine (parseLine ?st ''### Notes'') ''- x'' =
      ?st\<lparr>currentVersion := Some
                   (?cv\<lparr>changes := (changes ?cv)(Added \<mapsto>
                        (case changes ?cv Added of None \<Rightarrow> [] | Some es \<Rightarrow> es)
                          @ [\<lparr>description = trim ''x''\<rparr>])\<rparr>)\<rparr>" by blast
  have "map_option (\<lambda>v. changes v Added)
          (currentVersion (parseLine (parseLine ?st ''### Notes'') ''- x''))
        = Some (Some [\<lparr>description = ''x''\<rparr>])"
    by (simp add: b t)
  with a show ?thesis by simp
qed

lemma sameBlock_saveVersion:
  assumes "sameBlock R s s'"
  shows "versions (saveVersion s) = versions R @ versions (saveVersion s')"
    and "unreleased (saveVersion s) =
           (case unreleased (saveVersion s') of None \<Rightarrow> unreleased R | Some u \<Rightarrow> Some u)"
  using assms by (auto simp: sameBlock_def saveVersion_def split: option.splits)

lemma sameBlock_step:
  assumes "sameBlock R s s'"
  shows "sameBlock R (parseLine s l) (parseLine s' l)"
proof (cases "matchVersionHeader (trim l)")
  case (Some g)
  obtain g1 g2 where g: "g = (g1, g2)" by (cases g)
  note h = parseLine_header [of l g1 g2]
  from Some g have m: "matchVersionHeader (trim l) = Some (g1, g2)" by simp
  show ?thesis
    using sameBlock_saveVersion [OF assms]
    by (simp add: h [OF m] sameBlock_def)
next
  case None
  from assms have e: "s = s'\<lparr>repository := repository s, isUnreleased := isUnreleased s\<rparr>"
    by (simp add: sameBlock_def)
  have "parseLine s l = (parseLine s' l)\<lparr>repository := repository s, isUnreleased := isUnreleased s\<rparr>"
    by (subst e) (rule parseLine_other_moves [OF None])
  then have c: "currentVersion (parseLine s l) = currentVersion (parseLine s' l)"
    "currentSection (parseLine s l) = currentSection (parseLine s' l)" by simp_all
  from assms c show ?thesis
    by (simp add: sameBlock_def parseLine_other_frame [OF None])
qed

lemma sameBlock_foldl:
  "sameBlock R s s' \<Longrightarrow> sameBlock R (foldl parseLine s ls) (foldl parseLine s' ls)"
  by (induction ls arbitrary: s s') (auto intro: sameBlock_step)

lemma sameBlock_after_header:
  assumes "matchVersionHeader (trim h) \<noteq> None"
  shows "sameBlock (saveVersion s) (parseLine s h) (parseLine (initialState rn rp) h)"
proof -
  from assms obtain g1 g2 where m: "matchVersionHeader (trim h) = Some (g1, g2)" by auto
  show ?thesis
    by (simp add: parseLine_header [OF m] sameBlock_def saveVersion_def initialState_def)
qed

lemma parseLines_append_blocks:
  assumes "ls2 = [] \<or> matchVersionHeader (trim (hd ls2)) \<noteq> None"
  shows "versions (parseLines rn rp (ls1 @ ls2))
           = versions (parseLines rn rp ls1) @ versions (parseLines rn rp ls2)"
    and "unreleased (parseLines rn rp (ls1 @ ls2))
           = (case unreleased (parseLines rn rp ls2) of
                None \<Rightarrow> unreleased (parseLines rn rp ls1) | Some u \<Rightarrow> Some u)"
proof -
  let ?s = "foldl parseLine (initialState rn rp) ls1"
  have "versions (parseLines rn rp (ls1 @ ls2))
           = versions (parseLines rn rp ls1) @ versions (parseLines rn rp ls2)
      \<and> unreleased (parseLines rn rp (ls1 @ ls2))
           = (case unreleased (parseLines rn rp ls2) of
                None \<Rightarrow> unreleased (parseLines rn rp ls1) | Some u \<Rightarrow> Some u)"
  proof (cases ls2)
    case Nil
    then show ?thesis by (simp add: parseLines_def saveVersion_def initialState_def)
  next
    case (Cons h rest)
    with assms have m: "matchVersionHeader (trim h) \<noteq> None" by simp
    have "sameBlock (saveVersion ?s) (foldl parseLine (parseLine ?s h) rest)
            (foldl parseLine (parseLine (initialState rn rp) h) rest)"
      by (rule sameBlock_foldl [OF sameBlock_after_header [OF m]])
    from sameBlock_saveVersion [OF this] Cons show ?thesis
      by (simp add: parseLines_def cong: option.case_cong)
  qed
  then show "versions (parseLines rn rp (ls1 @ ls2))
           = versions (parseLines rn rp ls1) @ versions (parseLines rn rp ls2)"
    and "unreleased (parseLines rn rp (ls1 @ ls2))
           = (case unreleased (parseLines rn rp ls2) of
                None \<Rightarrow> unreleased (parseLines rn rp ls1) | Some u \<Rightarrow> Some u)"
    by simp_all
qed

lemma parseLine_other_cv:
  assumes "matchVersionHeader (trim l) = None" and "currentVersion st = Some cv"
  shows "\<exists>cv'. currentVersion (parseLine st l) = Some cv' \<and> version cv' = version cv
           \<and> date cv' = date cv"
  using assms by (auto simp: parseLine_def Let_def split: option.splits)

lemma foldl_other_cv:
  assumes "\<forall>l \<in> set body. matchVersionHeader (trim l) = None" and "currentVersion st = Some cv"
  shows "\<exists>cv'. currentVersion (foldl parseLine st body) = Some cv' \<and> version cv' = version cv
           \<and> date cv' = date cv"
  using assms
proof (induction body arbitrary: st cv)
  case Nil
  then show ?case by simp
next
  case (Cons l body)
  from Cons.prems have n: "matchVersionHeader (trim l) = None" by simp
  from parseLine_other_cv [OF n Cons.prems(2)] obtain cv1 where
    c: "currentVersion (parseLine st l) = Some cv1" "version cv1 = version cv" "date cv1 = date cv"
    by blast
  from Cons.prems have "\<forall>l \<in> set body. matchVersionHeader (trim l) = None" by simp
  from Cons.IH [OF this c(1)] c show ?case by auto
qed

lemma foldl_other_frame:
  assumes "\<forall>l \<in> set body. matchVersionHeader (trim l) = None"
  shows "repository (foldl parseLine st body) = repository st"
    and "isUnreleased (foldl parseLine st body) = isUnreleased st"
  using assms by (induction body arbitrary: st) (simp_all add: parseLine_other_frame)

lemma labelsConsistent_step: "labelsConsistent st \<Longrightarrow> labelsConsistent (parseLine st l)"
proof (cases "matchVersionHeader (trim l)")
  case (Some g)
  assume a: "labelsConsistent st"
  obtain g1 g2 where m: "matchVersionHeader (trim l) = Some (g1, g2)" using Some by (cases g) simp
  show ?thesis using a
    by (auto simp: parseLine_header [OF m] labelsConsistent_def saveVersion_def split: option.splits)
next
  case None
  assume a: "labelsConsistent st"
  show ?thesis
  proof (cases "currentVersion st")
    case N: None
    then have "currentVersion (parseLine st l) = None"
      using None by (auto simp: parseLine_def Let_def split: option.splits)
    with a show ?thesis by (simp add: labelsConsistent_def parseLine_other_frame [OF None])
  next
    case (Some cv)
    from parseLine_other_cv [OF None Some] obtain cv' where
      "currentVersion (parseLine st l) = Some cv'" "version cv' = version cv" by blast
    with a Some show ?thesis by (simp add: labelsConsistent_def parseLine_other_frame [OF None])
  qed
qed

lemma labelsConsistent_foldl:
  "labelsConsistent st \<Longrightarrow> labelsConsistent (foldl parseLine st ls)"
  by (induction ls arbitrary: st) (auto intro: labelsConsistent_step)

lemma versions_never_unreleased:
  "\<forall>v \<in> set (versions (parseLines rn rp ls)). toLowerCase (version v) \<noteq> ''unreleased''"
proof -
  have "labelsConsistent (initialState rn rp)"
    by (simp add: labelsConsistent_def initialState_def)
  then have "labelsConsistent (foldl parseLine (initialState rn rp) ls)"
    by (rule labelsConsistent_foldl)
  then show ?thesis
    by (auto simp: parseLines_def saveVersion_def labelsConsistent_def split: option.splits)
qed

lemma parseLines_one_block:
  assumes "matchVersionHeader (trim h) = Some (g1, g2)"
    and "\<forall>l \<in> set body. matchVersionHeader (trim l) = None"
  shows "\<exists>cv. currentVersion (foldl parseLine (initialState rn rp) (h # body)) = Some cv
           \<and> version cv = trim g1
           \<and> parseLines rn rp (h # body) =
               (if toLowerCase (trim g1) = ''unreleased''
                then \<lparr>name = rn, path = rp, versions = [], unreleased = Some (changes cv)\<rparr>
                else \<lparr>name = rn, path = rp, versions = [cv], unreleased = None\<rparr>)"
proof -
  let ?s1 = "parseLine (initialState rn rp) h"
  have s1: "repository ?s1 = \<lparr>name = rn, path = rp, versions = [], unreleased = None\<rparr>"
    "isUnreleased ?s1 = (toLowerCase (trim g1) = ''unreleased'')"
    "\<exists>cv. currentVersion ?s1 = Some cv \<and> version cv = trim g1"
    by (simp_all add: parseLine_header [OF assms(1)] saveVersion_def initialState_def)
  then obtain cv0 where c0: "currentVersion ?s1 = Some cv0" "version cv0 = trim g1" by blast
  from foldl_other_cv [OF assms(2) c0(1)] obtain cv where
    cv: "currentVersion (foldl parseLine ?s1 body) = Some cv" "version cv = version cv0" by blast
  have "parseLines rn rp (h # body) =
               (if toLowerCase (trim g1) = ''unreleased''
                then \<lparr>name = rn, path = rp, versions = [], unreleased = Some (changes cv)\<rparr>
                else \<lparr>name = rn, path = rp, versions = [cv], unreleased = None\<rparr>)"
    using cv s1 by (simp add: parseLines_def saveVersion_def foldl_other_frame [OF assms(2)])
  with cv c0 show ?thesis by simp
qed

lemma parseLines_append_blocks':
  assumes "case ls2 of [] \<Rightarrow> True | t # ts \<Rightarrow> matchVersionHeader (trim t) \<noteq> None"
  shows "versions (parseLines rn rp (ls1 @ ls2))
           = versions (parseLines rn rp ls1) @ versions (parseLines rn rp ls2)"
    and "unreleased (parseLines rn rp (ls1 @ ls2))
           = (case unreleased (parseLines rn rp ls2) of
                None \<Rightarrow> unreleased (parseLines rn rp ls1) | Some u \<Rightarrow> Some u)"
proof -
  from assms have "ls2 = [] \<or> matchVersionHeader (trim (hd ls2)) \<noteq> None"
    by (cases ls2) simp_all
  then show "versions (parseLines rn rp (ls1 @ ls2))
           = versions (parseLines rn rp ls1) @ versions (parseLines rn rp ls2)"
    and "unreleased (parseLines rn rp (ls1 @ ls2))
           = (case unreleased (parseLines rn rp ls2) of
                None \<Rightarrow> unreleased (parseLines rn rp ls1) | Some u \<Rightarrow> Some u)"
    by (rule parseLines_append_blocks)+
qed

lemma parseLines_block_between:
  assumes "matchVersionHeader (trim h) = Some (g1, g2)"
    and "\<forall>l \<in> set body. matchVersionHeader (trim l) = None"
    and "case tail of [] \<Rightarrow> True | t # ts \<Rightarrow> matchVersionHeader (trim t) \<noteq> None"
  shows "\<exists>cv. currentVersion (foldl parseLine (initialState rn rp) (h # body)) = Some cv
           \<and> version cv = trim g1
           \<and> versions (parseLines rn rp (pre @ h # body @ tail)) =
               versions (parseLines rn rp pre)
               @ (if toLowerCase (trim g1) = ''unreleased'' then [] else [cv])
               @ versions (parseLines rn rp tail)
           \<and> unreleased (parseLines rn rp (pre @ h # body @ tail)) =
               (case unreleased (parseLines rn rp tail) of
                  Some u \<Rightarrow> Some u
                | None \<Rightarrow> if toLowerCase (trim g1) = ''unreleased'' then Some (changes cv)
                           else unreleased (parseLines rn rp pre))"
proof -
  from parseLines_one_block [OF assms(1,2), of rn rp] obtain cv where
    cv: "currentVersion (foldl parseLine (initialState rn rp) (h # body)) = Some cv"
      "version cv = trim g1"
      "parseLines rn rp (h # body) =
               (if toLowerCase (trim g1) = ''unreleased''
                then \<lparr>name = rn, path = rp, versions = [], unreleased = Some (changes cv)\<rparr>
                else \<lparr>name = rn, path = rp, versions = [cv], unreleased = None\<rparr>)" by blast
  have hd1: "case (h # body) @ tail of [] \<Rightarrow> True | t # ts \<Rightarrow> matchVersionHeader (trim t) \<noteq> None"
    using assms(1) by simp
  have v: "versions (parseLines rn rp (pre @ (h # body) @ tail)) =
        versions (parseLines rn rp pre) @ versions (parseLines rn rp (h # body))
          @ versions (parseLines rn rp tail)"
    by (simp only: parseLines_append_blocks'(1) [OF hd1] parseLines_append_blocks'(1) [OF assms(3)])
  have u: "unreleased (parseLines rn rp (pre @ (h # body) @ tail)) =
        (case (case unreleased (parseLines rn rp tail) of
                 None \<Rightarrow> unreleased (parseLines rn rp (h # body)) | Some u \<Rightarrow> Some u) of
           None \<Rightarrow> unreleased (parseLines rn rp pre) | Some u \<Rightarrow> Some u)"
    by (simp only: parseLines_append_blocks'(2) [OF hd1] parseLines_append_blocks'(2) [OF assms(3)])
  from v u cv show ?thesis
    by (auto split: option.splits)
qed

lemma noUnreleased_step:
  assumes "case matchVersionHeader (trim l) of None \<Rightarrow> True
           | Some (g, d) \<Rightarrow> toLowerCase (trim g) \<noteq> ''unreleased''"
    and "unreleased (repository st) = None" and "\<not> isUnreleased st"
  shows "unreleased (repository (parseLine st l)) = None \<and> \<not> isUnreleased (parseLine st l)"
  using assms
  by (auto simp: parseLine_def saveVersion_def Let_def split: option.splits prod.splits)

lemma noUnreleased_foldl:
  assumes "\<forall>l \<in> set ls. case matchVersionHeader (trim l) of None \<Rightarrow> True
             | Some (g, d) \<Rightarrow> toLowerCase (trim g) \<noteq> ''unreleased''"
    and "unreleased (repository st) = None" and "\<not> isUnreleased st"
  shows "unreleased (repository (foldl parseLine st ls)) = None
         \<and> \<not> isUnreleased (foldl parseLine st ls)"
  using assms
proof (induction ls arbitrary: st)
  case Nil
  then show ?case by simp
next
  case (Cons l ls)
  from Cons.prems(1) have l: "case matchVersionHeader (trim l) of None \<Rightarrow> True
           | Some (g, d) \<Rightarrow> toLowerCase (trim g) \<noteq> ''unreleased''" by simp
  from noUnreleased_step [OF l Cons.prems(2,3)]
  have s: "unreleased (repository (parseLine st l)) = None" "\<not> isUnreleased (parseLine st l)"
    by simp_all
  from Cons.prems(1) have r: "\<forall>l \<in> set ls. case matchVersionHeader (trim l) of None \<Rightarrow> True
             | Some (g, d) \<Rightarrow> toLowerCase (trim g) \<noteq> ''unreleased''" by simp
  from Cons.IH [OF r s] show ?case by simp
qed

lemma unreleased_None:
  assumes "\<forall>l \<in> set ls. case matchVersionHeader (trim l) of None \<Rightarrow> True
             | Some (g, d) \<Rightarrow> toLowerCase (trim g) \<noteq> ''unreleased''"
  shows "unreleased (parseLines rn rp ls) = None"
proof -
  have "unreleased (repository (initialState rn rp)) = None" "\<not> isUnreleased (initialState rn rp)"
    by (simp_all add: initialState_def)
  from noUnreleased_foldl [OF assms this]
  show ?thesis by (simp add: parseLines_def saveVersion_def split: option.splits)
qed

text \<open>
  Claim C6 says that a block whose header carries the label \<open>unreleased\<close>, wherever it
  appears, is stored in the \<open>unreleased\<close> field. The field holds one block: each block
  with that label replaces what the field held. In a file with two such blocks the
  entry of the first one is neither in the field nor in \<open>versions\<close>.
\<close>

theorem unreleased_block_overwritten_counterexample:
  "map_option (\<lambda>u. (u Added, u Fixed))
     (unreleased (parseContent ''r'' ''p''
        ''## [Unreleased]\<newline>### Added\<newline>- a\<newline>## [1.0.0]\<newline>### Changed\<newline>- c\<newline>## [unreleased]\<newline>### Fixed\<newline>- b''))
     = Some (None, Some [\<lparr>description = ''b''\<rparr>])
   \<and> map (\<lambda>v. (version v, changes v Added, changes v Changed))
       (versions (parseContent ''r'' ''p''
        ''## [Unreleased]\<newline>### Added\<newline>- a\<newline>## [1.0.0]\<newline>### Changed\<newline>- c\<newline>## [unreleased]\<newline>### Fixed\<newline>- b''))
     = [(''1.0.0'', None, Some [\<lparr>description = ''c''\<rparr>])]"
  by code_simp

text \<open>
  Claim C6, amended: no element of \<open>versions\<close> ever carries the label \<open>unreleased\<close>
  (compared in lower case), whatever the text. A block whose header carries that label,
  wherever it stands in the file (after any lines \<open>pre\<close>, before any further blocks
  \<open>tail\<close>), adds no element to \<open>versions\<close>. Its changes are what the \<open>unreleased\<close>
  field holds when no later header carries the label: the field holds the last such
  block, and an earlier one is replaced and lost. The changelog \<open>## [Unreleased]\<close>,
  \<open>### Added\<close> with one bullet gives an \<open>added\<close> list of length 1 in the field and no
  version.
\<close>

theorem unreleased_block_extracted:
  assumes "matchVersionHeader (trim h) = Some (g1, g2)"
    and "toLowerCase (trim g1) = ''unreleased''"
    and "\<forall>l \<in> set body. matchVersionHeader (trim l) = None"
    and "case tail of [] \<Rightarrow> True | t # ts \<Rightarrow> matchVersionHeader (trim t) \<noteq> None"
  shows "(\<forall>v \<in> set (versions (parseContent rn rp text)). toLowerCase (version v) \<noteq> ''unreleased'')
       \<and> versions (parseLines rn rp (pre @ h # body @ tail))
           = versions (parseLines rn rp pre) @ versions (parseLines rn rp tail)
       \<and> (\<exists>cv. currentVersion (foldl parseLine (initialState rn rp) (h # body)) = Some cv
             \<and> unreleased (parseLines rn rp (pre @ h # body @ tail)) =
                 (case unreleased (parseLines rn rp tail) of
                    None \<Rightarrow> Some (changes cv) | Some u \<Rightarrow> Some u)
             \<and> ((\<forall>l \<in> set tail. case matchVersionHeader (trim l) of None \<Rightarrow> True
                    | Some (g, d) \<Rightarrow> toLowerCase (trim g) \<noteq> ''unreleased'') \<longrightarrow>
                  unreleased (parseLines rn rp (pre @ h # body @ tail)) = Some (changes cv)))
       \<and> versions (parseContent rn rp ''## [Unreleased]\<newline>### Added\<newline>- New API'') = []
       \<and> map_option (\<lambda>u. map_option length (u Added))
            (unreleased (parseContent rn rp ''## [Unreleased]\<newline>### Added\<newline>- New API''))
           = Some (Some 1)"
proof -
  have a: "\<forall>v \<in> set (versions (parseContent rn rp text)). toLowerCase (version v) \<noteq> ''unreleased''"
    unfolding parseContent_def by (rule versions_never_unreleased)
  from parseLines_block_between [OF assms(1,3,4), of rn rp pre] assms(2)
  have b: "versions (parseLines rn rp (pre @ h # body @ tail))
           = versions (parseLines rn rp pre) @ versions (parseLines rn rp tail)"
    and c0: "\<exists>cv. currentVersion (foldl parseLine (initialState rn rp) (h # body)) = Some cv
             \<and> unreleased (parseLines rn rp (pre @ h # body @ tail)) =
                 (case unreleased (parseLines rn rp tail) of
                    None \<Rightarrow> Some (changes cv) | Some u \<Rightarrow> Some u)"
    by (auto split: option.splits)
  from c0 obtain cv where
    cv: "currentVersion (foldl parseLine (initialState rn rp) (h # body)) = Some cv"
      "unreleased (parseLines rn rp (pre @ h # body @ tail)) =
                 (case unreleased (parseLines rn rp tail) of
                    None \<Rightarrow> Some (changes cv) | Some u \<Rightarrow> Some u)" by blast
  have last: "(\<forall>l \<in> set tail. case matchVersionHeader (trim l) of None \<Rightarrow> True
                    | Some (g, d) \<Rightarrow> toLowerCase (trim g) \<noteq> ''unreleased'') \<longrightarrow>
                  unreleased (parseLines rn rp (pre @ h # body @ tail)) = Some (changes cv)"
    using cv(2) by (simp add: unreleased_None)
  from cv last have c: "\<exists>cv. currentVersion (foldl parseLine (initialState rn rp) (h # body)) = Some cv
             \<and> unreleased (parseLines rn rp (pre @ h # body @ tail)) =
                 (case unreleased (parseLines rn rp tail) of
                    None \<Rightarrow> Some (changes cv) | Some u \<Rightarrow> Some u)
             \<and> ((\<forall>l \<in> set tail. case matchVersionHeader (trim l) of None \<Rightarrow> True
                    | Some (g, d) \<Rightarrow> toLowerCase (trim g) \<noteq> ''unreleased'') \<longrightarrow>
                  unreleased (parseLines rn rp (pre @ h # body @ tail)) = Some (changes cv))"
    by blast
  have d: "versions (parseContent rn rp ''## [Unreleased]\<newline>### Added\<newline>- New API'') = []"
    by code_simp
  have e: "map_option (\<lambda>u. map_option length (u Added))
            (unreleased (parseContent rn rp ''## [Unreleased]\<newline>### Added\<newline>- New API''))
           = Some (Some 1)"
    by code_simp
  from a b c d e show ?thesis by blast
qed

theorem unreleased_block_extracted_witness:
  "versions (parseLines ''r'' ''p''
      ([''# Changelog''] @ ''## [Unreleased]'' # [''### Added'', ''- New API'']
        @ [''## [1.0.0]'', ''### Fixed'', ''- f'']))
   = versions (parseLines ''r'' ''p'' [''# Changelog''])
     @ versions (parseLines ''r'' ''p'' [''## [1.0.0]'', ''### Fixed'', ''- f''])
   \<and> map version (versions (parseLines ''r'' ''p''
      ([''# Changelog''] @ ''## [Unreleased]'' # [''### Added'', ''- New API'']
        @ [''## [1.0.0]'', ''### Fixed'', ''- f'']))) = [''1.0.0'']
   \<and> (\<exists>cv. currentVersion (foldl parseLine (initialState ''r'' ''p'')
               (''## [Unreleased]'' # [''### Added'', ''- New API''])) = Some cv
         \<and> unreleased (parseLines ''r'' ''p''
             ([''# Changelog''] @ ''## [Unreleased]'' # [''### Added'', ''- New API'']
               @ [''## [1.0.0]'', ''### Fixed'', ''- f''])) = Some (changes cv))
   \<and> map_option (\<lambda>u. u Added) (unreleased (parseLines ''r'' ''p''
      ([''# Changelog''] @ ''## [Unreleased]'' # [''### Added'', ''- New API'']
        @ [''## [1.0.0]'', ''### Fixed'', ''- f''])))
     = Some (Some [\<lparr>description = ''New API''\<rparr>])"
proof -
  have e1: "map version (versions (parseLines ''r'' ''p''
      ([''# Changelog''] @ ''## [Unreleased]'' # [''### Added'', ''- New API'']
        @ [''## [1.0.0]'', ''### Fixed'', ''- f'']))) = [''1.0.0'']" by code_simp
  have e2: "map_option (\<lambda>u. u Added) (unreleased (parseLines ''r'' ''p''
      ([''# Changelog''] @ ''## [Unreleased]'' # [''### Added'', ''- New API'']
        @ [''## [1.0.0]'', ''### Fixed'', ''- f''])))
     = Some (Some [\<lparr>description = ''New API''\<rparr>])" by code_simp
  have h1: "matchVersionHeader (trim ''## [Unreleased]'') = Some (''Unreleased'', None)"
    by code_simp
  have h2: "toLowerCase (trim ''Unreleased'') = ''unreleased''" by code_simp
  have h3: "\<forall>l \<in> set [''### Added'', ''- New API'']. matchVersionHeader (trim l) = None"
    by code_simp
  have h4: "case [''## [1.0.0]'', ''### Fixed'', ''- f''] of [] \<Rightarrow> True
            | t # ts \<Rightarrow> matchVersionHeader (trim t) \<noteq> None" by code_simp
  have h5: "\<forall>l \<in> set [''## [1.0.0]'', ''### Fixed'', ''- f''].
              case matchVersionHeader (trim l) of None \<Rightarrow> True
              | Some (g, d) \<Rightarrow> toLowerCase (trim g) \<noteq> ''unreleased''" by code_simp
  note t = unreleased_block_extracted [OF h1 h2 h3 h4, of "''r''" "''p''" "[]" "[''# Changelog'']"]
  from t have a: "versions (parseLines ''r'' ''p''
      ([''# Changelog''] @ ''## [Unreleased]'' # [''### Added'', ''- New API'']
        @ [''## [1.0.0]'', ''### Fixed'', ''- f'']))
   = versions (parseLines ''r'' ''p'' [''# Changelog''])
     @ versions (parseLines ''r'' ''p'' [''## [1.0.0]'', ''### Fixed'', ''- f''])" by blast
  from t h5 have b: "\<exists>cv. currentVersion (foldl parseLine (initialState ''r'' ''p'')
               (''## [Unreleased]'' # [''### Added'', ''- New API''])) = Some cv
         \<and> unreleased (parseLines ''r'' ''p''
             ([''# Changelog''] @ ''## [Unreleased]'' # [''### Added'', ''- New API'']
               @ [''## [1.0.0]'', ''### Fixed'', ''- f''])) = Some (changes cv)" by blast
  from a e1 b e2 show ?thesis by blast
qed












end
